theory Spec2Isabelle
  imports Main "HOL-Library.List_Lexorder" "HOL-Library.Char_ord"
begin

section \<open>JSON values and text\<close>

text \<open>
  The contract of \<^verbatim>\<open>src/src/assetTransfer.ts\<close> never computes with the values it
  stores: it builds an object literal, hands it to \<^verbatim>\<open>sortKeysRecursive\<close> and
  \<^verbatim>\<open>stringify\<close>, and reads text back with \<^verbatim>\<open>JSON.parse\<close>. A value is therefore
  modelled as a JSON tree.

  \<^item> Text is a \<^typ>\<open>string\<close> holding the UTF-8 bytes, so \<^verbatim>\<open>Buffer.from(s)\<close> and
    \<^verbatim>\<open>buffer.toString()\<close> are the identity and a ledger value is the text it holds.
  \<^item> A JavaScript number is never added, compared or rounded by this program, only printed
    and read. It is carried as the decimal text ECMAScript prints for it (\<open>0.5\<close>,
    \<open>1000.5\<close>, \<open>1e+21\<close>); \<open>number_ok\<close> is the JSON number grammar. Non-finite
    numbers are outside the model.
  \<^item> An object is the list of its properties in insertion order. The engine's special
    placement of properties named like array indices is not modelled; no property of this
    contract has such a name.
\<close>

type_synonym number = string

datatype json =
    JNull
  | JBool bool
  | JNum number
  | JStr string
  | JArr "json list"
  | JObj "(string \<times> json) list"

definition is_digit :: "char \<Rightarrow> bool" where
  "is_digit c = (CHR ''0'' \<le> c \<and> c \<le> CHR ''9'')"

definition is_numchar :: "char \<Rightarrow> bool" where
  "is_numchar c = (is_digit c \<or> c = CHR ''-'' \<or> c = CHR ''+'' \<or> c = CHR ''.''
                   \<or> c = CHR ''e'' \<or> c = CHR ''E'')"

definition exp_ok :: "string \<Rightarrow> bool" where
  "exp_ok s =
     (case s of
        [] \<Rightarrow> True
      | c # r \<Rightarrow>
          (c = CHR ''e'' \<or> c = CHR ''E'') \<and>
          (let r1 = (case r of [] \<Rightarrow> []
                     | d # r' \<Rightarrow> if d = CHR ''+'' \<or> d = CHR ''-'' then r' else r)
           in r1 \<noteq> [] \<and> list_all is_digit r1))"

definition frac_ok :: "string \<Rightarrow> bool" where
  "frac_ok s =
     (case s of
        [] \<Rightarrow> True
      | c # r \<Rightarrow>
          if c = CHR ''.''
          then (case r of [] \<Rightarrow> False
                | d # r' \<Rightarrow> is_digit d \<and> exp_ok (dropWhile is_digit r'))
          else exp_ok s)"

definition int_ok :: "string \<Rightarrow> bool" where
  "int_ok s =
     (case s of
        [] \<Rightarrow> False
      | c # r \<Rightarrow>
          if c = CHR ''0'' then frac_ok r
          else is_digit c \<and> frac_ok (dropWhile is_digit r))"

text \<open>The JSON number grammar: \<open>-?(0|[1-9][0-9]*)(.[0-9]+)?([eE][+-]?[0-9]+)?\<close>.\<close>

definition number_ok :: "number \<Rightarrow> bool" where
  "number_ok s =
     (list_all is_numchar s \<and>
      (case s of [] \<Rightarrow> False
       | c # r \<Rightarrow> if c = CHR ''-'' then int_ok r else int_ok s))"

text \<open>
  A well-formed value: every number is a number token and no object has two properties of
  one name. Every value a JavaScript program can hold is of this kind.
\<close>

fun json_ok :: "json \<Rightarrow> bool" where
  "json_ok (JNum n) = number_ok n"
| "json_ok (JArr xs) = list_all json_ok xs"
| "json_ok (JObj fs) = (distinct (map fst fs) \<and> list_all (\<lambda>kv. json_ok (snd kv)) fs)"
| "json_ok v = True"

text \<open>Property assignment \<^verbatim>\<open>obj[k] = v\<close>: in place when the property exists, else appended.\<close>

fun obj_set :: "string \<Rightarrow> json \<Rightarrow> (string \<times> json) list \<Rightarrow> (string \<times> json) list" where
  "obj_set k v [] = [(k, v)]"
| "obj_set k v (kv # fs) = (if fst kv = k then (k, v) # fs else kv # obj_set k v fs)"

subsection \<open>Printing\<close>

fun join_comma :: "string list \<Rightarrow> string" where
  "join_comma [] = []"
| "join_comma [x] = x"
| "join_comma (x # y # ys) = x @ CHR '','' # join_comma (y # ys)"

definition hexdigit :: "nat \<Rightarrow> char" where
  "hexdigit n = (if n < 10 then char_of (48 + n) else char_of (87 + n))"

text \<open>
  ECMAScript \<^verbatim>\<open>QuoteJSONString\<close>: the quote, the backslash and the control characters
  are escaped, every other byte is copied.
\<close>

definition escape_char :: "char \<Rightarrow> string" where
  "escape_char c =
     (if c = CHR 0x22 then [CHR 0x5C, CHR 0x22]
      else if c = CHR 0x5C then [CHR 0x5C, CHR 0x5C]
      else if c = CHR 0x08 then [CHR 0x5C, CHR ''b'']
      else if c = CHR 0x0C then [CHR 0x5C, CHR ''f'']
      else if c = CHR 0x0A then [CHR 0x5C, CHR ''n'']
      else if c = CHR 0x0D then [CHR 0x5C, CHR ''r'']
      else if c = CHR 0x09 then [CHR 0x5C, CHR ''t'']
      else if (of_char c :: nat) < 32
        then [CHR 0x5C, CHR ''u'', CHR ''0'', CHR ''0'',
              hexdigit (of_char c div 16), hexdigit (of_char c mod 16)]
      else [c])"

definition quote :: "string \<Rightarrow> string" where
  "quote s = CHR 0x22 # concat (map escape_char s) @ [CHR 0x22]"

text \<open>\<^verbatim>\<open>JSON.stringify\<close> without indentation: properties in the object's own order.\<close>

fun JSON_stringify :: "json \<Rightarrow> string" where
  "JSON_stringify JNull = ''null''"
| "JSON_stringify (JBool b) = (if b then ''true'' else ''false'')"
| "JSON_stringify (JNum n) = n"
| "JSON_stringify (JStr s) = quote s"
| "JSON_stringify (JArr xs) = ''['' @ join_comma (map JSON_stringify xs) @ '']''"
| "JSON_stringify (JObj fs) =
     ''{'' @ join_comma (map (\<lambda>kv. quote (fst kv) @ '':'' @ JSON_stringify (snd kv)) fs)
       @ ''}''"

subsection \<open>The canonical encoder\<close>

text \<open>
  Modelled from the spec: the packages \<^verbatim>\<open>sort-keys-recursive\<close> and
  \<^verbatim>\<open>json-stringify-deterministic\<close> that \<^verbatim>\<open>assetTransfer.ts\<close> imports are not part
  of the sources. Section 4.1 of the specification describes them: object keys are sorted
  ascending by code point, recursively; arrays keep the order of their elements; the text
  has no insignificant whitespace.
\<close>

fun sortKeysRecursive :: "json \<Rightarrow> json" where
  "sortKeysRecursive (JObj fs) =
     JObj (sort_key fst (map (\<lambda>kv. (fst kv, sortKeysRecursive (snd kv))) fs))"
| "sortKeysRecursive (JArr xs) = JArr (map sortKeysRecursive xs)"
| "sortKeysRecursive v = v"

text \<open>
  Modelled from the spec: \<^verbatim>\<open>stringify\<close> of \<^verbatim>\<open>json-stringify-deterministic\<close>, the
  "deterministic JSON.stringify()" of the source's opening comment. It prints the
  properties of every object in ascending key order, whatever order the object has.
\<close>

fun stringify :: "json \<Rightarrow> string" where
  "stringify JNull = ''null''"
| "stringify (JBool b) = (if b then ''true'' else ''false'')"
| "stringify (JNum n) = n"
| "stringify (JStr s) = quote s"
| "stringify (JArr xs) = ''['' @ join_comma (map stringify xs) @ '']''"
| "stringify (JObj fs) =
     ''{'' @ join_comma (map (\<lambda>kv. quote (fst kv) @ '':'' @ stringify (snd kv))
                              (sort_key fst fs)) @ ''}''"

text \<open>The expression \<^verbatim>\<open>Buffer.from(stringify(sortKeysRecursive(asset)))\<close> of every write.\<close>

definition encode :: "json \<Rightarrow> string" where
  "encode asset = stringify (sortKeysRecursive asset)"

subsection \<open>Reading: \<^verbatim>\<open>JSON.parse\<close>\<close>

text \<open>
  \<^verbatim>\<open>JSON.parse\<close> is a built-in of the engine. It is modelled by a scanner that reads
  the text byte by byte into tokens and a pushdown parser over the tokens; both are folds
  over their input, hence total. \<open>None\<close> is the \<^verbatim>\<open>SyntaxError\<close>.
  An escape \<open>\uXXXX\<close> is decoded to the UTF-8 bytes of its code point; the escapes of the
  surrogate range (which denote half of a character outside the basic plane) are outside
  the model and rejected.
\<close>

datatype token =
    LBrace | RBrace | LBrack | RBrack | Colon | Comma
  | TStr string | TNum number | TTrue | TFalse | TNull

datatype lstate =
    LNormal
  | LString string
  | LEscape string
  | LUnicode string "nat list"
  | LNumber string
  | LWord string

definition is_ws :: "char \<Rightarrow> bool" where
  "is_ws c = (c = CHR '' '' \<or> c = CHR 0x09 \<or> c = CHR 0x0A \<or> c = CHR 0x0D)"

definition is_lower :: "char \<Rightarrow> bool" where
  "is_lower c = (CHR ''a'' \<le> c \<and> c \<le> CHR ''z'')"

definition keyword :: "string \<Rightarrow> token option" where
  "keyword w =
     (if w = ''true'' then Some TTrue
      else if w = ''false'' then Some TFalse
      else if w = ''null'' then Some TNull
      else None)"

definition unescape :: "char \<Rightarrow> char option" where
  "unescape c =
     (if c = CHR 0x22 then Some (CHR 0x22)
      else if c = CHR 0x5C then Some (CHR 0x5C)
      else if c = CHR ''/'' then Some (CHR ''/'')
      else if c = CHR ''b'' then Some (CHR 0x08)
      else if c = CHR ''f'' then Some (CHR 0x0C)
      else if c = CHR ''n'' then Some (CHR 0x0A)
      else if c = CHR ''r'' then Some (CHR 0x0D)
      else if c = CHR ''t'' then Some (CHR 0x09)
      else None)"

definition hexval :: "char \<Rightarrow> nat option" where
  "hexval c =
     (if is_digit c then Some (of_char c - 48)
      else if CHR ''a'' \<le> c \<and> c \<le> CHR ''f'' then Some (of_char c - 87)
      else if CHR ''A'' \<le> c \<and> c \<le> CHR ''F'' then Some (of_char c - 55)
      else None)"

definition utf8 :: "nat \<Rightarrow> string option" where
  "utf8 n =
     (if n < 128 then Some [char_of n]
      else if n < 2048 then Some [char_of (192 + n div 64), char_of (128 + n mod 64)]
      else if 55296 \<le> n \<and> n < 57344 then None
      else Some [char_of (224 + n div 4096), char_of (128 + (n div 64) mod 64),
                 char_of (128 + n mod 64)])"

definition lex_normal :: "char \<Rightarrow> (token list \<times> lstate) option" where
  "lex_normal c =
     (if is_ws c then Some ([], LNormal)
      else if c = CHR ''{'' then Some ([LBrace], LNormal)
      else if c = CHR ''}'' then Some ([RBrace], LNormal)
      else if c = CHR ''['' then Some ([LBrack], LNormal)
      else if c = CHR '']'' then Some ([RBrack], LNormal)
      else if c = CHR '':'' then Some ([Colon], LNormal)
      else if c = CHR '','' then Some ([Comma], LNormal)
      else if c = CHR 0x22 then Some ([], LString [])
      else if c = CHR ''-'' \<or> is_digit c then Some ([], LNumber [c])
      else if is_lower c then Some ([], LWord [c])
      else None)"

fun lex_step :: "lstate \<Rightarrow> char \<Rightarrow> (token list \<times> lstate) option" where
  "lex_step LNormal c = lex_normal c"
| "lex_step (LString acc) c =
     (if c = CHR 0x22 then Some ([TStr acc], LNormal)
      else if c = CHR 0x5C then Some ([], LEscape acc)
      else if (of_char c :: nat) < 32 then None
      else Some ([], LString (acc @ [c])))"
| "lex_step (LEscape acc) c =
     (if c = CHR ''u'' then Some ([], LUnicode acc [])
      else (case unescape c of
              None \<Rightarrow> None
            | Some d \<Rightarrow> Some ([], LString (acc @ [d]))))"
| "lex_step (LUnicode acc ds) c =
     (case hexval c of
        None \<Rightarrow> None
      | Some d \<Rightarrow>
          if length ds < 3 then Some ([], LUnicode acc (ds @ [d]))
          else (case utf8 (foldl (\<lambda>a x. 16 * a + x) 0 (ds @ [d])) of
                  None \<Rightarrow> None
                | Some bs \<Rightarrow> Some ([], LString (acc @ bs))))"
| "lex_step (LNumber n) c =
     (if is_numchar c then Some ([], LNumber (n @ [c]))
      else if number_ok n
        then (case lex_normal c of
                None \<Rightarrow> None
              | Some (ts, st) \<Rightarrow> Some (TNum n # ts, st))
      else None)"
| "lex_step (LWord w) c =
     (if is_lower c then Some ([], LWord (w @ [c]))
      else (case keyword w of
              None \<Rightarrow> None
            | Some t \<Rightarrow>
                (case lex_normal c of
                   None \<Rightarrow> None
                 | Some (ts, st) \<Rightarrow> Some (t # ts, st))))"

fun lex_finish :: "lstate \<Rightarrow> token list option" where
  "lex_finish LNormal = Some []"
| "lex_finish (LNumber n) = (if number_ok n then Some [TNum n] else None)"
| "lex_finish (LWord w) = map_option (\<lambda>t. [t]) (keyword w)"
| "lex_finish st = None"

definition emit :: "token list \<Rightarrow> token list option \<Rightarrow> token list option" where
  "emit ts r = (case r of None \<Rightarrow> None | Some us \<Rightarrow> Some (ts @ us))"

fun lex_run :: "lstate \<Rightarrow> string \<Rightarrow> token list option" where
  "lex_run st [] = lex_finish st"
| "lex_run st (c # cs) =
     (case lex_step st c of
        None \<Rightarrow> None
      | Some (ts, st') \<Rightarrow> emit ts (lex_run st' cs))"

text \<open>
  The parser keeps the containers that are still open, innermost first: an array with
  the elements read so far, an object with its properties so far, or an object with a
  property name that waits for its value.
\<close>

datatype frame =
    ArrF "json list"
  | ObjF "(string \<times> json) list"
  | KeyF "(string \<times> json) list" string

datatype pmode =
    PValue        \<comment> \<open>a value starts here\<close>
  | PFirst        \<comment> \<open>after \<open>[\<close>: a value or \<open>]\<close>\<close>
  | PArrNext      \<comment> \<open>after an element: \<open>,\<close> or \<open>]\<close>\<close>
  | PKeyFirst     \<comment> \<open>after \<open>{\<close>: a name or \<open>}\<close>\<close>
  | PKey          \<comment> \<open>after \<open>,\<close> in an object: a name\<close>
  | PColon        \<comment> \<open>after a name\<close>
  | PObjNext      \<comment> \<open>after a property: \<open>,\<close> or \<open>}\<close>\<close>
  | PDone json    \<comment> \<open>the whole value has been read\<close>

text \<open>A finished value goes into the innermost open container.\<close>

fun deliver :: "json \<Rightarrow> frame list \<Rightarrow> (pmode \<times> frame list) option" where
  "deliver v [] = Some (PDone v, [])"
| "deliver v (ArrF xs # stk) = Some (PArrNext, ArrF (xs @ [v]) # stk)"
| "deliver v (KeyF fs k # stk) = Some (PObjNext, ObjF (obj_set k v fs) # stk)"
| "deliver v (ObjF fs # stk) = None"

fun start_value :: "token \<Rightarrow> frame list \<Rightarrow> (pmode \<times> frame list) option" where
  "start_value TNull stk = deliver JNull stk"
| "start_value TTrue stk = deliver (JBool True) stk"
| "start_value TFalse stk = deliver (JBool False) stk"
| "start_value (TNum n) stk = deliver (JNum n) stk"
| "start_value (TStr s) stk = deliver (JStr s) stk"
| "start_value LBrack stk = Some (PFirst, ArrF [] # stk)"
| "start_value LBrace stk = Some (PKeyFirst, ObjF [] # stk)"
| "start_value t stk = None"

fun parse_step :: "pmode \<Rightarrow> frame list \<Rightarrow> token \<Rightarrow> (pmode \<times> frame list) option" where
  "parse_step PValue stk t = start_value t stk"
| "parse_step PFirst (ArrF xs # stk) RBrack = deliver (JArr xs) stk"
| "parse_step PFirst stk t = start_value t stk"
| "parse_step PArrNext stk Comma = Some (PValue, stk)"
| "parse_step PArrNext (ArrF xs # stk) RBrack = deliver (JArr xs) stk"
| "parse_step PKeyFirst (ObjF fs # stk) RBrace = deliver (JObj fs) stk"
| "parse_step PKeyFirst (ObjF fs # stk) (TStr k) = Some (PColon, KeyF fs k # stk)"
| "parse_step PKey (ObjF fs # stk) (TStr k) = Some (PColon, KeyF fs k # stk)"
| "parse_step PColon stk Colon = Some (PValue, stk)"
| "parse_step PObjNext stk Comma = Some (PKey, stk)"
| "parse_step PObjNext (ObjF fs # stk) RBrace = deliver (JObj fs) stk"
| "parse_step m stk t = None"

fun parse_run :: "pmode \<Rightarrow> frame list \<Rightarrow> token list \<Rightarrow> json option" where
  "parse_run m stk [] = (case m of PDone v \<Rightarrow> Some v | _ \<Rightarrow> None)"
| "parse_run m stk (t # ts) =
     (case parse_step m stk t of
        None \<Rightarrow> None
      | Some (m', stk') \<Rightarrow> parse_run m' stk' ts)"

definition JSON_parse :: "string \<Rightarrow> json option" where
  "JSON_parse s =
     (case lex_run LNormal s of
        None \<Rightarrow> None
      | Some ts \<Rightarrow> parse_run PValue [] ts)"

section \<open>The ledger\<close>

text \<open>
  Modelled from the spec: the stub \<^verbatim>\<open>ctx.stub\<close> belongs to the ledger runtime, not to
  the sources. Section 4.2 of the specification gives its contract: \<open>get\<close>, \<open>put\<close>,
  \<open>delete\<close> and a range scan in ascending key order, where an empty bound is open.
  The world state is the list of its entries in that order.
\<close>

type_synonym world_state = "(string \<times> string) list"

definition getState :: "world_state \<Rightarrow> string \<Rightarrow> string option" where
  "getState st k = map_of st k"

fun putState :: "string \<Rightarrow> string \<Rightarrow> world_state \<Rightarrow> world_state" where
  "putState k v [] = [(k, v)]"
| "putState k v (e # st) =
     (if fst e = k then (k, v) # st
      else if k < fst e then (k, v) # e # st
      else e # putState k v st)"

definition deleteState :: "string \<Rightarrow> world_state \<Rightarrow> world_state" where
  "deleteState k st = filter (\<lambda>e. fst e \<noteq> k) st"

definition getStateByRange :: "world_state \<Rightarrow> string \<Rightarrow> string \<Rightarrow> world_state" where
  "getStateByRange st startKey endKey =
     filter (\<lambda>e. (startKey = [] \<or> startKey \<le> fst e) \<and> (endKey = [] \<or> fst e < endKey)) st"

text \<open>The states the runtime can be in: keys ascending, each once.\<close>

definition state_ok :: "world_state \<Rightarrow> bool" where
  "state_ok st = (sorted (map fst st) \<and> distinct (map fst st))"

section \<open>The contract for sensor assets\<close>

text \<open>
  Every \<^verbatim>\<open>throw new Error(...)\<close> of the source is a value: \<open>AlreadyExists k\<close> for
  "The asset k already exists", \<open>NotFound k\<close> for "The asset k does not exist". The other
  three are the engine's own errors: \<^verbatim>\<open>JSON.parse\<close> on malformed text, a property
  access on a value that has none, and the use of an identifier that is not declared.

  A transaction that writes returns its outcome together with the world state it leaves,
  so that what a failing call has written can be stated. The parameter \<^verbatim>\<open>id\<close> of the
  source is written \<open>id'\<close>.
\<close>

datatype error =
    AlreadyExists string
  | NotFound string
  | SyntaxError
  | TypeError
  | ReferenceError string

text \<open>\<^verbatim>\<open>AssetExists\<close>, lines 169-172: \<^verbatim>\<open>assetJSON && assetJSON.length > 0\<close>.\<close>

definition AssetExists :: "world_state \<Rightarrow> string \<Rightarrow> bool" where
  "AssetExists st id' =
     (case getState st id' of
        None \<Rightarrow> False
      | Some assetJSON \<Rightarrow> length assetJSON > 0)"

text \<open>The object literal of lines 78-92, and again of lines 134-148.\<close>

definition asset_literal ::
  "string \<Rightarrow> number \<Rightarrow> number \<Rightarrow> number \<Rightarrow> number \<Rightarrow> number \<Rightarrow> number \<Rightarrow> number \<Rightarrow> number
   \<Rightarrow> number \<Rightarrow> number list \<Rightarrow> number list \<Rightarrow> string \<Rightarrow> json" where
  "asset_literal id' snr vbat latitude longitude gas_resistance temperature pressure humidity
     light gyroscope accelerometer owner =
     JObj [(''ID'', JStr id'),
           (''SNR'', JNum snr),
           (''VBAT'', JNum vbat),
           (''Latitude'', JNum latitude),
           (''Longitude'', JNum longitude),
           (''Gas_resistance'', JNum gas_resistance),
           (''Temperature'', JNum temperature),
           (''Pressure'', JNum pressure),
           (''Humidity'', JNum humidity),
           (''Light'', JNum light),
           (''Gyroscope'', JArr (map JNum gyroscope)),
           (''Accelerometer'', JArr (map JNum accelerometer)),
           (''Owner'', JStr owner)]"

text \<open>\<^verbatim>\<open>InitLedger\<close>, lines 22-53. The loop sets \<^verbatim>\<open>docType\<close> and writes under
  \<^verbatim>\<open>asset.ID\<close>, with no check of what the key holds.\<close>

definition assets :: "json list" where
  "assets =
     [asset_literal ''basdni7s8acadad8a9d8'' ''0.5'' ''3.3'' ''45.464664'' ''12.2629'' ''0.5''
        ''31.7'' ''1000.5'' ''50.5'' ''0.5'' [''0.5'', ''0.5'', ''0.5'']
        [''0.5'', ''0.5'', ''0.5''] ''Chidera's IoT device 1'']"

fun InitLedger_loop :: "json list \<Rightarrow> world_state \<Rightarrow> (error + unit) \<times> world_state" where
  "InitLedger_loop [] st = (Inr (), st)"
| "InitLedger_loop (JObj fs # rest) st =
     (let asset = obj_set ''docType'' (JStr ''asset'') fs
      in case map_of asset ''ID'' of
           Some (JStr id') \<Rightarrow> InitLedger_loop rest (putState id' (encode (JObj asset)) st)
         | _ \<Rightarrow> (Inl TypeError, st))"
| "InitLedger_loop (v # rest) st = (Inl TypeError, st)"

definition InitLedger :: "world_state \<Rightarrow> (error + unit) \<times> world_state" where
  "InitLedger st = InitLedger_loop assets st"

text \<open>\<^verbatim>\<open>CreateAsset\<close>, lines 57-98.\<close>

definition CreateAsset ::
  "world_state \<Rightarrow> string \<Rightarrow> number \<Rightarrow> number \<Rightarrow> number \<Rightarrow> number \<Rightarrow> number \<Rightarrow> number
   \<Rightarrow> number \<Rightarrow> number \<Rightarrow> number \<Rightarrow> number list \<Rightarrow> number list \<Rightarrow> string
   \<Rightarrow> (error + unit) \<times> world_state" where
  "CreateAsset st id' snr vbat latitude longitude gas_resistance temperature pressure humidity
     light gyroscope accelerometer owner =
     (if AssetExists st id' then (Inl (AlreadyExists id'), st)
      else (Inr (),
            putState id'
              (encode (asset_literal id' snr vbat latitude longitude gas_resistance
                         temperature pressure humidity light gyroscope accelerometer owner))
              st))"

text \<open>\<^verbatim>\<open>ReadAsset\<close>, lines 102-108: the stored bytes as text, nothing else.\<close>

definition ReadAsset :: "world_state \<Rightarrow> string \<Rightarrow> error + string" where
  "ReadAsset st id' =
     (case getState st id' of
        None \<Rightarrow> Inl (NotFound id')
      | Some assetJSON \<Rightarrow>
          if length assetJSON = 0 then Inl (NotFound id') else Inr assetJSON)"

text \<open>\<^verbatim>\<open>UpdateAsset\<close>, lines 112-154.\<close>

definition UpdateAsset ::
  "world_state \<Rightarrow> string \<Rightarrow> number \<Rightarrow> number \<Rightarrow> number \<Rightarrow> number \<Rightarrow> number \<Rightarrow> number
   \<Rightarrow> number \<Rightarrow> number \<Rightarrow> number \<Rightarrow> number list \<Rightarrow> number list \<Rightarrow> string
   \<Rightarrow> (error + unit) \<times> world_state" where
  "UpdateAsset st id' snr vbat latitude longitude gas_resistance temperature pressure humidity
     light gyroscope accelerometer owner =
     (if \<not> AssetExists st id' then (Inl (NotFound id'), st)
      else (Inr (),
            putState id'
              (encode (asset_literal id' snr vbat latitude longitude gas_resistance
                         temperature pressure humidity light gyroscope accelerometer owner))
              st))"

text \<open>\<^verbatim>\<open>DeleteAsset\<close>, lines 158-164.\<close>

definition DeleteAsset :: "world_state \<Rightarrow> string \<Rightarrow> (error + unit) \<times> world_state" where
  "DeleteAsset st id' =
     (if \<not> AssetExists st id' then (Inl (NotFound id'), st)
      else (Inr (), deleteState id' st))"

text \<open>
  \<^verbatim>\<open>TransferAsset\<close>, lines 176-191. The stored text is parsed, \<^verbatim>\<open>Owner\<close> is assigned
  and the whole value is encoded again. The old owner is whatever the property held,
  \<open>None\<close> for \<^verbatim>\<open>undefined\<close>. The source does not check what \<^verbatim>\<open>JSON.parse\<close> returns:
  on \<^verbatim>\<open>null\<close> the property access throws, on a number, string or boolean the assignment
  throws (a class body is strict code), and on an array the property is set but never
  printed.
\<close>

definition TransferAsset ::
  "world_state \<Rightarrow> string \<Rightarrow> string \<Rightarrow> (error + json option) \<times> world_state" where
  "TransferAsset st id' newOwner =
     (case ReadAsset st id' of
        Inl e \<Rightarrow> (Inl e, st)
      | Inr assetString \<Rightarrow>
          (case JSON_parse assetString of
             None \<Rightarrow> (Inl SyntaxError, st)
           | Some (JObj fs) \<Rightarrow>
               (let oldOwner = map_of fs ''Owner'';
                    asset = JObj (obj_set ''Owner'' (JStr newOwner) fs)
                in (Inr oldOwner, putState id' (encode asset) st))
           | Some (JArr xs) \<Rightarrow> (Inr None, putState id' (encode (JArr xs)) st)
           | Some v \<Rightarrow> (Inl TypeError, st)))"

text \<open>
  \<^verbatim>\<open>GetAllAssets\<close>, lines 196-216. The \<^verbatim>\<open>while\<close> loop over the iterator is the
  recursion over the scanned entries; \<^verbatim>\<open>allResults\<close> is the accumulator; the
  \<^verbatim>\<open>catch\<close> branch keeps the text of an entry that does not parse.
\<close>

fun GetAllAssets_loop :: "world_state \<Rightarrow> json list \<Rightarrow> json list" where
  "GetAllAssets_loop [] allResults = allResults"
| "GetAllAssets_loop (result # iterator) allResults =
     (let strValue = snd result;
          record = (case JSON_parse strValue of
                      Some r \<Rightarrow> r
                    | None \<Rightarrow> JStr strValue)
      in GetAllAssets_loop iterator (allResults @ [record]))"

definition GetAllAssets :: "world_state \<Rightarrow> error + string" where
  "GetAllAssets st =
     Inr (JSON_stringify (JArr (GetAllAssets_loop (getStateByRange st [] []) [])))"

section \<open>The contract for methane readings\<close>

text \<open>
  The second class of \<^verbatim>\<open>assetTransfer.ts\<close>, lines 237-379, keyed by a timestamp.
  Its functions carry the suffix \<open>_m\<close>. \<^verbatim>\<open>TransferAsset\<close> is commented out there, and
  \<^verbatim>\<open>GetAllAssets\<close> is the same text as above.
\<close>

definition metric_literal :: "string \<Rightarrow> number \<Rightarrow> json" where
  "metric_literal timestamp methanelevel =
     JObj [(''Timestamp'', JStr timestamp), (''Methanelevel'', JNum methanelevel)]"

definition assets_m :: "json list" where
  "assets_m = [metric_literal ''00:00:00'' ''0'']"

fun InitLedger_loop_m :: "json list \<Rightarrow> world_state \<Rightarrow> (error + unit) \<times> world_state" where
  "InitLedger_loop_m [] st = (Inr (), st)"
| "InitLedger_loop_m (JObj fs # rest) st =
     (let asset = obj_set ''docType'' (JStr ''asset'') fs
      in case map_of asset ''Timestamp'' of
           Some (JStr timestamp) \<Rightarrow>
             InitLedger_loop_m rest (putState timestamp (encode (JObj asset)) st)
         | _ \<Rightarrow> (Inl TypeError, st))"
| "InitLedger_loop_m (v # rest) st = (Inl TypeError, st)"

definition InitLedger_m :: "world_state \<Rightarrow> (error + unit) \<times> world_state" where
  "InitLedger_m st = InitLedger_loop_m assets_m st"

definition AssetExists_m :: "world_state \<Rightarrow> string \<Rightarrow> bool" where
  "AssetExists_m st timestamp =
     (case getState st timestamp of
        None \<Rightarrow> False
      | Some assetJSON \<Rightarrow> length assetJSON > 0)"

definition CreateAsset_m ::
  "world_state \<Rightarrow> string \<Rightarrow> number \<Rightarrow> (error + unit) \<times> world_state" where
  "CreateAsset_m st timestamp methanelevel =
     (if AssetExists_m st timestamp then (Inl (AlreadyExists timestamp), st)
      else (Inr (), putState timestamp (encode (metric_literal timestamp methanelevel)) st))"

definition ReadAsset_m :: "world_state \<Rightarrow> string \<Rightarrow> error + string" where
  "ReadAsset_m st timestamp =
     (case getState st timestamp of
        None \<Rightarrow> Inl (NotFound timestamp)
      | Some assetJSON \<Rightarrow>
          if length assetJSON = 0 then Inl (NotFound timestamp) else Inr assetJSON)"

definition UpdateAsset_m ::
  "world_state \<Rightarrow> string \<Rightarrow> number \<Rightarrow> (error + unit) \<times> world_state" where
  "UpdateAsset_m st timestamp methanelevel =
     (if \<not> AssetExists_m st timestamp then (Inl (NotFound timestamp), st)
      else (Inr (), putState timestamp (encode (metric_literal timestamp methanelevel)) st))"

text \<open>
  \<^verbatim>\<open>DeleteAsset\<close>, lines 320-326. Line 321 passes \<^verbatim>\<open>id\<close> to \<^verbatim>\<open>AssetExists\<close>, and
  nothing in the module or in the function declares \<^verbatim>\<open>id\<close>: evaluating the argument
  throws before \<^verbatim>\<open>AssetExists\<close> is called, whatever the state and the timestamp are.
\<close>

definition DeleteAsset_m :: "world_state \<Rightarrow> string \<Rightarrow> (error + unit) \<times> world_state" where
  "DeleteAsset_m st timestamp = (Inl (ReferenceError ''id''), st)"

section \<open>Definitions for the proofs\<close>

text \<open>
  The token list of a printed value, the characters that can follow a value in printed
  text, and the invariants of the scanner and the parser.
\<close>

fun join_toks :: "token list list \<Rightarrow> token list" where
  "join_toks [] = []"
| "join_toks [x] = x"
| "join_toks (x # y # ys) = x @ Comma # join_toks (y # ys)"

fun toks :: "json \<Rightarrow> token list" where
  "toks JNull = [TNull]"
| "toks (JBool b) = [if b then TTrue else TFalse]"
| "toks (JNum n) = [TNum n]"
| "toks (JStr s) = [TStr s]"
| "toks (JArr xs) = LBrack # join_toks (map toks xs) @ [RBrack]"
| "toks (JObj fs) =
     LBrace # join_toks (map (\<lambda>kv. TStr (fst kv) # Colon # toks (snd kv)) fs) @ [RBrace]"

definition delim :: "string \<Rightarrow> bool" where
  "delim rest = (case rest of [] \<Rightarrow> True
                 | c # r \<Rightarrow> c = CHR '','' \<or> c = CHR '']'' \<or> c = CHR ''}'')"

definition continue_with ::
  "(pmode \<times> frame list) option \<Rightarrow> token list \<Rightarrow> json option" where
  "continue_with r ts = (case r of None \<Rightarrow> None | Some (m, stk) \<Rightarrow> parse_run m stk ts)"

definition sorted_asset ::
  "string \<Rightarrow> number \<Rightarrow> number \<Rightarrow> number \<Rightarrow> number \<Rightarrow> number \<Rightarrow> number \<Rightarrow> number \<Rightarrow> number
   \<Rightarrow> number \<Rightarrow> number list \<Rightarrow> number list \<Rightarrow> string \<Rightarrow> (string \<times> json) list" where
  "sorted_asset id' snr vbat latitude longitude gas_resistance temperature pressure humidity
     light gyroscope accelerometer owner =
     [(''Accelerometer'', JArr (map JNum accelerometer)),
      (''Gas_resistance'', JNum gas_resistance),
      (''Gyroscope'', JArr (map JNum gyroscope)),
      (''Humidity'', JNum humidity),
      (''ID'', JStr id'),
      (''Latitude'', JNum latitude),
      (''Light'', JNum light),
      (''Longitude'', JNum longitude),
      (''Owner'', JStr owner),
      (''Pressure'', JNum pressure),
      (''SNR'', JNum snr),
      (''Temperature'', JNum temperature),
      (''VBAT'', JNum vbat)]"

fun token_ok :: "token \<Rightarrow> bool" where
  "token_ok (TNum n) = number_ok n"
| "token_ok t = True"

fun frame_ok :: "frame \<Rightarrow> bool" where
  "frame_ok (ArrF xs) = list_all json_ok xs"
| "frame_ok (ObjF fs) = json_ok (JObj fs)"
| "frame_ok (KeyF fs k) = json_ok (JObj fs)"

fun pmode_ok :: "pmode \<Rightarrow> bool" where
  "pmode_ok (PDone v) = json_ok v"
| "pmode_ok m = True"

section \<open>Notions the claims speak of\<close>

text \<open>What \<^verbatim>\<open>Read(k)\<close> decodes to: the text \<open>ReadAsset\<close> returns, parsed.\<close>

definition decoded :: "world_state \<Rightarrow> string \<Rightarrow> json option" where
  "decoded st k = (case ReadAsset st k of Inl e \<Rightarrow> None | Inr text \<Rightarrow> JSON_parse text)"

text \<open>The value of a property of a record, \<open>None\<close> when the record has no such property.\<close>

definition field :: "json \<Rightarrow> string \<Rightarrow> json option" where
  "field v k = (case v of JObj fs \<Rightarrow> map_of fs k | _ \<Rightarrow> None)"

text \<open>The entry \<open>GetAllAssets\<close> lists for a stored text: its parse, or the text itself.\<close>

definition entry :: "string \<Rightarrow> json" where
  "entry text = (case JSON_parse text of Some r \<Rightarrow> r | None \<Rightarrow> JStr text)"

text \<open>
  Canonical form, stated on the stored text and on the value it parses to, without the
  encoder. A text is compact when no whitespace stands outside a string literal: the
  scan below is outside a string, inside one, or just behind a backslash inside one.
\<close>

datatype wstate = Outside | Inside | Escaped

fun compact_from :: "wstate \<Rightarrow> string \<Rightarrow> bool" where
  "compact_from st [] = True"
| "compact_from Outside (c # cs) =
     (\<not> is_ws c \<and> compact_from (if c = CHR 0x22 then Inside else Outside) cs)"
| "compact_from Inside (c # cs) =
     compact_from (if c = CHR 0x22 then Outside else if c = CHR 0x5C then Escaped else Inside) cs"
| "compact_from Escaped (c # cs) = compact_from Inside cs"

definition compact :: "string \<Rightarrow> bool" where
  "compact s = compact_from Outside s"

text \<open>Keys sorted recursively: in every object the names ascend strictly by code point.\<close>

fun keys_sorted :: "json \<Rightarrow> bool" where
  "keys_sorted (JObj fs) =
     (sorted_wrt (<) (map fst fs) \<and> list_all (\<lambda>kv. keys_sorted (snd kv)) fs)"
| "keys_sorted (JArr xs) = list_all keys_sorted xs"
| "keys_sorted v = True"

text \<open>
  A number text is in canonical form when it has one of the shapes ECMAScript's
  \<^verbatim>\<open>Number::toString\<close> prints: no \<open>-0\<close>, no fraction that ends in \<open>0\<close>, at most 21
  integer digits, at most five zeros between \<open>0.\<close> and the first other digit, and an
  exponent only as one digit, an optional fraction, \<open>e\<close>, a sign, and an exponent without
  leading zero that is at least 21 when positive and at least 7 when negative. So
  \<open>1.0\<close>, \<open>1e21\<close> and \<open>1E+21\<close> are number tokens, and not canonical.
\<close>

definition unsigned :: "number \<Rightarrow> string" where
  "unsigned t = (case t of [] \<Rightarrow> [] | c # r \<Rightarrow> if c = CHR ''-'' then r else t)"

definition int_part :: "number \<Rightarrow> string" where
  "int_part t = takeWhile is_digit (unsigned t)"

definition frac_part :: "number \<Rightarrow> string" where
  "frac_part t =
     (case dropWhile is_digit (unsigned t) of
        [] \<Rightarrow> []
      | c # r \<Rightarrow> if c = CHR ''.'' then takeWhile is_digit r else [])"

definition exp_part :: "number \<Rightarrow> string" where
  "exp_part t =
     (case dropWhile is_digit (unsigned t) of
        [] \<Rightarrow> []
      | c # r \<Rightarrow> if c = CHR ''.'' then dropWhile is_digit r else c # r)"

definition digits_value :: "string \<Rightarrow> nat" where
  "digits_value ds = foldl (\<lambda>a c. 10 * a + (of_char c - 48)) 0 ds"

definition number_canon :: "number \<Rightarrow> bool" where
  "number_canon t =
     (number_ok t \<and> t \<noteq> ''-0'' \<and>
      (case rev (frac_part t) of [] \<Rightarrow> True | d # r \<Rightarrow> d \<noteq> CHR ''0'') \<and>
      (case exp_part t of
         [] \<Rightarrow>
           length (int_part t) \<le> 21 \<and>
           (if int_part t = ''0''
            then length (takeWhile (\<lambda>c. c = CHR ''0'') (frac_part t)) \<le> 5 else True)
       | e # ex \<Rightarrow>
           e = CHR ''e'' \<and> length (int_part t) = 1 \<and> int_part t \<noteq> ''0'' \<and>
           (case ex of
              [] \<Rightarrow> False
            | s # ds \<Rightarrow>
                (case ds of [] \<Rightarrow> False | d # r \<Rightarrow> d \<noteq> CHR ''0'') \<and>
                (if s = CHR ''+'' then 21 \<le> digits_value ds
                 else s = CHR ''-'' \<and> 7 \<le> digits_value ds))))"

fun nums_canon :: "json \<Rightarrow> bool" where
  "nums_canon (JNum n) = number_canon n"
| "nums_canon (JArr xs) = list_all nums_canon xs"
| "nums_canon (JObj fs) = list_all (\<lambda>kv. nums_canon (snd kv)) fs"
| "nums_canon v = True"

text \<open>
  A stored text is canonical when it parses to an object whose keys are sorted
  recursively and whose numbers are canonical, when it is compact, and when it is the
  text \<^verbatim>\<open>JSON.stringify\<close> prints for that object (so that strings are escaped in the
  one way the printer escapes them).
\<close>

definition canonical :: "string \<Rightarrow> bool" where
  "canonical text =
     (case JSON_parse text of
        Some (JObj fs) \<Rightarrow>
          keys_sorted (JObj fs) \<and> nums_canon (JObj fs) \<and> compact text \<and>
          JSON_stringify (JObj fs) = text
      | _ \<Rightarrow> False)"

definition canonical_state :: "world_state \<Rightarrow> bool" where
  "canonical_state st = list_all (\<lambda>e. canonical (snd e)) st"

section \<open>Facts about the ledger\<close>

lemma getState_putState_same: "getState (putState k v st) k = Some v"
  by (induction st) (auto simp: getState_def)

lemma getState_putState_other: "k' \<noteq> k \<Longrightarrow> getState (putState k v st) k' = getState st k'"
  by (induction st) (auto simp: getState_def)

lemma getState_deleteState_same: "getState (deleteState k st) k = None"
  by (induction st) (auto simp: getState_def deleteState_def)

lemma getState_deleteState_other: "k' \<noteq> k \<Longrightarrow> getState (deleteState k st) k' = getState st k'"
  by (induction st) (auto simp: getState_def deleteState_def)

lemma set_putState: "set (map fst (putState k v st)) = insert k (set (map fst st))"
  by (induction st) auto

lemma state_ok_putState: "state_ok st \<Longrightarrow> state_ok (putState k v st)"
proof (induction st)
  case Nil
  then show ?case by (simp add: state_ok_def)
next
  case (Cons e st)
  then have ok: "state_ok st" by (simp add: state_ok_def)
  have keys: "set (map fst (putState k v st)) = insert k (set (map fst st))"
    by (rule set_putState)
  show ?case
  proof (cases "fst e = k")
    case True
    with Cons.prems show ?thesis by (simp add: state_ok_def)
  next
    case False
    show ?thesis
    proof (cases "k < fst e")
      case True
      with Cons.prems False show ?thesis by (force simp: state_ok_def)
    next
      case ge: False
      with False have lt: "fst e < k" by simp
      from Cons.IH [OF ok] Cons.prems keys False ge lt show ?thesis
        by (auto simp: state_ok_def)
    qed
  qed
qed

lemma state_ok_deleteState: "state_ok st \<Longrightarrow> state_ok (deleteState k st)"
  by (simp add: state_ok_def deleteState_def sorted_filter distinct_map_filter)

section \<open>Facts about sorting by key\<close>

lemma assoc_eqI:
  "map fst xs = map fst ys \<Longrightarrow> distinct (map fst xs) \<Longrightarrow> set xs = set ys \<Longrightarrow> xs = ys"
proof (induction xs arbitrary: ys)
  case Nil
  then show ?case by simp
next
  case (Cons x xs)
  then obtain y ys' where ys: "ys = y # ys'" by (cases ys) auto
  from Cons.prems ys have fx: "fst x = fst y" and ms: "map fst xs = map fst ys'" by auto
  have "y \<in> set (x # xs)" using Cons.prems(3) ys by auto
  with Cons.prems(2) fx have xy: "x = y" by (auto simp: image_iff)
  have nx: "x \<notin> set xs" using Cons.prems(2) by (auto simp: image_iff)
  have ny: "y \<notin> set ys'" using Cons.prems(2) ms fx Cons.prems(1) ys by (auto simp: image_iff)
  from Cons.prems(3) ys xy nx ny have "set xs = set ys'" by auto
  with Cons.IH [OF ms] Cons.prems(2) have "xs = ys'" by simp
  with xy ys show ?case by simp
qed

lemma distinct_map_sort_key: "distinct (map f (sort_key f xs)) = distinct (map f xs)"
  by (induction xs) (auto simp: distinct_insort_key)

lemma sort_key_fst_unique:
  assumes "distinct (map fst xs)" "distinct (map fst ys)" "set xs = set ys"
  shows "sort_key fst xs = sort_key fst ys"
proof (rule assoc_eqI)
  show "map fst (sort_key fst xs) = map fst (sort_key fst ys)"
  proof (rule sorted_distinct_set_unique)
    show "set (map fst (sort_key fst xs)) = set (map fst (sort_key fst ys))"
      using assms(3) by simp
  qed (simp_all add: distinct_map_sort_key assms)
  show "distinct (map fst (sort_key fst xs))" using assms(1) by (simp add: distinct_map_sort_key)
  show "set (sort_key fst xs) = set (sort_key fst ys)" using assms(3) by simp
qed

section \<open>The scanner reads what the printer writes\<close>

lemma join_comma_Cons: "join_comma (x # xs) = x @ concat (map (\<lambda>y. CHR '','' # y) xs)"
  by (induction xs arbitrary: x) auto

lemma join_toks_Cons: "join_toks (x # xs) = x @ concat (map (\<lambda>y. Comma # y) xs)"
  by (induction xs arbitrary: x) auto

lemma emit_Nil: "emit [] x = x"
  by (cases x) (simp_all add: emit_def)

lemma emit_emit: "emit ts (emit us x) = emit (ts @ us) x"
  by (cases x) (simp_all add: emit_def)

lemma hexval_hexdigit: "d < 16 \<Longrightarrow> hexval (hexdigit d) = Some d"
  by (auto simp: hexval_def hexdigit_def is_digit_def less_eq_char_def)

lemma lex_escape_ctl:
  assumes "c \<noteq> CHR 0x22" "c \<noteq> CHR 0x5C" "c \<noteq> CHR 0x08" "c \<noteq> CHR 0x0C" "c \<noteq> CHR 0x0A"
    "c \<noteq> CHR 0x0D" "c \<noteq> CHR 0x09" "(of_char c :: nat) < 32"
  shows "lex_run (LString acc) (escape_char c @ tail) = lex_run (LString (acc @ [c])) tail"
proof -
  let ?n = "of_char c :: nat"
  have hi: "hexval (hexdigit (?n div 16)) = Some (?n div 16)"
    using assms(8) by (intro hexval_hexdigit) simp
  have lo: "hexval (hexdigit (?n mod 16)) = Some (?n mod 16)"
    by (intro hexval_hexdigit) simp
  have z: "hexval CHR ''0'' = Some 0" by (simp add: hexval_def is_digit_def less_eq_char_def)
  have u: "utf8 ?n = Some [c]" using assms(8) by (simp add: utf8_def)
  have esc: "escape_char c = [CHR 0x5C, CHR ''u'', CHR ''0'', CHR ''0'',
            hexdigit (?n div 16), hexdigit (?n mod 16)]"
    using assms by (simp add: escape_char_def)
  show ?thesis
    unfolding esc by (simp add: hi lo z u emit_Nil)
qed

lemma lex_escape_short:
  assumes "c = CHR 0x22 \<or> c = CHR 0x5C \<or> c = CHR 0x08 \<or> c = CHR 0x0C \<or> c = CHR 0x0A
           \<or> c = CHR 0x0D \<or> c = CHR 0x09"
  shows "lex_run (LString acc) (escape_char c @ tail) = lex_run (LString (acc @ [c])) tail"
  using assms by (elim disjE) (simp_all add: escape_char_def unescape_def emit_Nil)

lemma lex_escape_char:
  "lex_run (LString acc) (escape_char c @ tail) = lex_run (LString (acc @ [c])) tail"
proof (cases "c = CHR 0x22 \<or> c = CHR 0x5C \<or> c = CHR 0x08 \<or> c = CHR 0x0C \<or> c = CHR 0x0A
           \<or> c = CHR 0x0D \<or> c = CHR 0x09")
  case True
  then show ?thesis by (rule lex_escape_short)
next
  case False
  show ?thesis
  proof (cases "(of_char c :: nat) < 32")
    case True
    with False show ?thesis by (intro lex_escape_ctl) simp_all
  next
    case plain: False
    with False have "escape_char c = [c]" by (simp add: escape_char_def)
    with False plain show ?thesis by (simp add: emit_Nil)
  qed
qed

lemma lex_string_body:
  "lex_run (LString acc) (concat (map escape_char s) @ CHR 0x22 # rest) =
   emit [TStr (acc @ s)] (lex_run LNormal rest)"
proof (induction s arbitrary: acc)
  case Nil
  show ?case by simp
next
  case (Cons c s)
  have "lex_run (LString acc) (concat (map escape_char (c # s)) @ CHR 0x22 # rest) =
        lex_run (LString acc) (escape_char c @ (concat (map escape_char s) @ CHR 0x22 # rest))"
    by simp
  also have "\<dots> = lex_run (LString (acc @ [c])) (concat (map escape_char s) @ CHR 0x22 # rest)"
    by (rule lex_escape_char)
  also have "\<dots> = emit [TStr ((acc @ [c]) @ s)] (lex_run LNormal rest)"
    by (rule Cons.IH)
  finally show ?case by simp
qed

lemma lex_quote:
  "lex_run LNormal (quote s @ rest) = emit [TStr s] (lex_run LNormal rest)"
  using lex_string_body [of "[]" s rest]
  by (simp add: quote_def lex_normal_def is_ws_def emit_Nil)

lemma is_numchar_not_delim:
  "c = CHR '','' \<or> c = CHR '']'' \<or> c = CHR ''}'' \<Longrightarrow> \<not> is_numchar c \<and> \<not> is_lower c"
  by (auto simp: is_numchar_def is_lower_def is_digit_def less_eq_char_def)

lemma lex_normal_delim:
  "c = CHR '','' \<or> c = CHR '']'' \<or> c = CHR ''}'' \<Longrightarrow>
   \<exists>t. lex_normal c = Some ([t], LNormal)"
  by (auto simp: lex_normal_def is_ws_def)

lemma lex_number_acc:
  "list_all is_numchar m \<Longrightarrow> lex_run (LNumber acc) (m @ rest) = lex_run (LNumber (acc @ m)) rest"
proof (induction m arbitrary: acc)
  case Nil
  show ?case by simp
next
  case (Cons c m)
  then have "lex_run (LNumber acc) ((c # m) @ rest) = lex_run (LNumber (acc @ [c])) (m @ rest)"
    by (simp add: emit_Nil)
  also have "\<dots> = lex_run (LNumber ((acc @ [c]) @ m)) rest"
    using Cons.prems by (intro Cons.IH) simp
  finally show ?case by simp
qed

lemma lex_word_acc:
  "list_all is_lower m \<Longrightarrow> lex_run (LWord acc) (m @ rest) = lex_run (LWord (acc @ m)) rest"
proof (induction m arbitrary: acc)
  case Nil
  show ?case by simp
next
  case (Cons c m)
  then have "lex_run (LWord acc) ((c # m) @ rest) = lex_run (LWord (acc @ [c])) (m @ rest)"
    by (simp add: emit_Nil)
  also have "\<dots> = lex_run (LWord ((acc @ [c]) @ m)) rest"
    using Cons.prems by (intro Cons.IH) simp
  finally show ?case by simp
qed

lemma number_ok_start:
  "number_ok n \<Longrightarrow> \<exists>c m. n = c # m \<and> (c = CHR ''-'' \<or> is_digit c) \<and> list_all is_numchar m"
  by (cases n) (auto simp: number_ok_def int_ok_def is_digit_def split: if_splits)

lemma lex_after_token:
  assumes "delim rest" "lex_finish st = Some [t]"
    and "\<And>c ts st'. c = CHR '','' \<or> c = CHR '']'' \<or> c = CHR ''}'' \<Longrightarrow>
           lex_normal c = Some (ts, st') \<Longrightarrow> lex_step st c = Some (t # ts, st')"
  shows "lex_run st rest = emit [t] (lex_run LNormal rest)"
proof (cases rest)
  case Nil
  with assms(2) show ?thesis by (simp add: emit_def)
next
  case (Cons c r)
  with assms(1) have d: "c = CHR '','' \<or> c = CHR '']'' \<or> c = CHR ''}''"
    by (simp add: delim_def)
  then obtain u where u: "lex_normal c = Some ([u], LNormal)"
    using lex_normal_delim by blast
  from assms(3) [OF d u] have "lex_step st c = Some ([t, u], LNormal)" .
  with u Cons show ?thesis
    by (simp add: emit_emit)
qed

lemma lex_normal_numstart:
  assumes "c = CHR ''-'' \<or> is_digit c"
  shows "lex_normal c = Some ([], LNumber [c])"
proof (cases "c = CHR ''-''")
  case True
  then show ?thesis by (simp add: lex_normal_def is_ws_def)
next
  case False
  with assms have dg: "is_digit c" by simp
  then have b: "48 \<le> (of_char c :: nat)" "(of_char c :: nat) \<le> 57"
    by (simp_all add: is_digit_def less_eq_char_def)
  have ne: "c \<noteq> d" if "(of_char d :: nat) < 48 \<or> 57 < (of_char d :: nat)" for d
    using b that by auto
  have ws: "\<not> is_ws c"
    unfolding is_ws_def
    using ne [of "CHR '' ''"] ne [of "CHR 0x09"] ne [of "CHR 0x0A"] ne [of "CHR 0x0D"] by simp
  have p: "c \<noteq> CHR ''{''" "c \<noteq> CHR ''}''" "c \<noteq> CHR ''[''" "c \<noteq> CHR '']''" "c \<noteq> CHR '':''"
    "c \<noteq> CHR '',''" "c \<noteq> CHR 0x22"
    by (rule ne, simp)+
  show ?thesis
    unfolding lex_normal_def using ws dg p by simp
qed

lemma lex_number:
  assumes "number_ok n" "delim rest"
  shows "lex_run LNormal (n @ rest) = emit [TNum n] (lex_run LNormal rest)"
proof -
  from number_ok_start [OF assms(1)] obtain c m where
    n: "n = c # m" and c: "c = CHR ''-'' \<or> is_digit c" and m: "list_all is_numchar m"
    by blast
  have "lex_normal c = Some ([], LNumber [c])"
    using c by (rule lex_normal_numstart)
  then have "lex_run LNormal (n @ rest) = lex_run (LNumber [c]) (m @ rest)"
    by (simp add: n emit_Nil)
  also have "\<dots> = lex_run (LNumber n) rest"
    using lex_number_acc [OF m, of "[c]" rest] by (simp add: n)
  also have "\<dots> = emit [TNum n] (lex_run LNormal rest)"
  proof (rule lex_after_token [OF assms(2)])
    show "lex_finish (LNumber n) = Some [TNum n]" using assms(1) by simp
  next
    fix d ts st'
    assume "d = CHR '','' \<or> d = CHR '']'' \<or> d = CHR ''}''" "lex_normal d = Some (ts, st')"
    then show "lex_step (LNumber n) d = Some (TNum n # ts, st')"
      using assms(1) is_numchar_not_delim [of d] by simp
  qed
  finally show ?thesis .
qed

lemma lex_normal_lower: 
  assumes "is_lower c" 
  shows "lex_normal c = Some ([], LWord [c])"
proof -
  from assms have b: "97 \<le> (of_char c :: nat)" "(of_char c :: nat) \<le> 122"
    by (simp_all add: is_lower_def less_eq_char_def)
  have ne: "c \<noteq> d" if "(of_char d :: nat) < 97 \<or> 122 < (of_char d :: nat)" for d
    using b that by auto
  have ws: "\<not> is_ws c"
    unfolding is_ws_def
    using ne [of "CHR '' ''"] ne [of "CHR 0x09"] ne [of "CHR 0x0A"] ne [of "CHR 0x0D"] by simp
  have dg: "\<not> is_digit c"
    using b by (simp add: is_digit_def less_eq_char_def)
  have p: "c \<noteq> CHR ''{''" "c \<noteq> CHR ''}''" "c \<noteq> CHR ''[''" "c \<noteq> CHR '']''" "c \<noteq> CHR '':''"
    "c \<noteq> CHR '',''" "c \<noteq> CHR 0x22" "c \<noteq> CHR ''-''"
    by (rule ne, simp)+
  show ?thesis
    unfolding lex_normal_def using ws dg p assms by simp
qed

lemma lex_word:
  assumes "keyword (c # m) = Some t" "list_all is_lower (c # m)" "delim rest"
  shows "lex_run LNormal ((c # m) @ rest) = emit [t] (lex_run LNormal rest)"
proof -
  have "lex_normal c = Some ([], LWord [c])"
    using assms(2) by (intro lex_normal_lower) simp
  then have "lex_run LNormal ((c # m) @ rest) = lex_run (LWord [c]) (m @ rest)"
    by (simp add: emit_Nil)
  also have "\<dots> = lex_run (LWord (c # m)) rest"
    using lex_word_acc [of m "[c]"] assms(2) by simp
  also have "\<dots> = emit [t] (lex_run LNormal rest)"
  proof (rule lex_after_token [OF assms(3)])
    show "lex_finish (LWord (c # m)) = Some [t]" using assms(1) by simp
  next
    fix d ts st'
    assume "d = CHR '','' \<or> d = CHR '']'' \<or> d = CHR ''}''" "lex_normal d = Some (ts, st')"
    then show "lex_step (LWord (c # m)) d = Some (t # ts, st')"
      using assms(1) is_numchar_not_delim [of d] by simp
  qed
  finally show ?thesis .
qed

lemma lex_null:
  "delim rest \<Longrightarrow> lex_run LNormal (''null'' @ rest) = emit [TNull] (lex_run LNormal rest)"
  by (rule lex_word [where t = TNull]) (simp_all add: keyword_def is_lower_def less_eq_char_def)

lemma lex_true:
  "delim rest \<Longrightarrow> lex_run LNormal (''true'' @ rest) = emit [TTrue] (lex_run LNormal rest)"
  by (rule lex_word [where t = TTrue]) (simp_all add: keyword_def is_lower_def less_eq_char_def)

lemma lex_false:
  "delim rest \<Longrightarrow> lex_run LNormal (''false'' @ rest) = emit [TFalse] (lex_run LNormal rest)"
  by (rule lex_word [where t = TFalse]) (simp_all add: keyword_def is_lower_def less_eq_char_def)

lemma delim_simps:
  "delim []" "delim (CHR '','' # r)" "delim (CHR '']'' # r)" "delim (CHR ''}'' # r)"
  by (simp_all add: delim_def)

lemma delim_concat:
  "delim rest \<Longrightarrow> delim (concat (map (\<lambda>y. CHR '','' # f y) ys) @ rest)"
  by (cases ys) (simp_all add: delim_def)

lemma lex_punct:
  "lex_run LNormal (CHR ''['' # r) = emit [LBrack] (lex_run LNormal r)"
  "lex_run LNormal (CHR '']'' # r) = emit [RBrack] (lex_run LNormal r)"
  "lex_run LNormal (CHR ''{'' # r) = emit [LBrace] (lex_run LNormal r)"
  "lex_run LNormal (CHR ''}'' # r) = emit [RBrace] (lex_run LNormal r)"
  "lex_run LNormal (CHR '':'' # r) = emit [Colon] (lex_run LNormal r)"
  "lex_run LNormal (CHR '','' # r) = emit [Comma] (lex_run LNormal r)"
  by (simp_all add: lex_normal_def is_ws_def)

lemma lex_separated:
  assumes each: "\<And>i rest. i \<in> set items \<Longrightarrow> delim rest \<Longrightarrow>
                   lex_run LNormal (f i @ rest) = emit (g i) (lex_run LNormal rest)"
    and "delim rest"
  shows "lex_run LNormal (concat (map (\<lambda>i. CHR '','' # f i) items) @ rest) =
         emit (concat (map (\<lambda>i. Comma # g i) items)) (lex_run LNormal rest)"
  using each
proof (induction items)
  case Nil
  show ?case by (simp add: emit_Nil)
next
  case (Cons i items)
  let ?tail = "concat (map (\<lambda>i. CHR '','' # f i) items) @ rest"
  have d: "delim ?tail" using assms(2) by (rule delim_concat)
  have "lex_run LNormal (concat (map (\<lambda>i. CHR '','' # f i) (i # items)) @ rest) =
        emit [Comma] (lex_run LNormal (f i @ ?tail))"
    by (simp add: lex_punct del: lex_run.simps)
  also have "\<dots> = emit [Comma] (emit (g i) (lex_run LNormal ?tail))"
    using Cons.prems [of i ?tail] d by simp
  also have "lex_run LNormal ?tail =
             emit (concat (map (\<lambda>i. Comma # g i) items)) (lex_run LNormal rest)"
    using Cons.prems by (intro Cons.IH) simp_all
  finally show ?case by (simp add: emit_emit)
qed

lemma lex_joined:
  assumes each: "\<And>i rest. i \<in> set items \<Longrightarrow> delim rest \<Longrightarrow>
                   lex_run LNormal (f i @ rest) = emit (g i) (lex_run LNormal rest)"
    and "delim rest"
  shows "lex_run LNormal (join_comma (map f items) @ rest) =
         emit (join_toks (map g items)) (lex_run LNormal rest)"
proof (cases items)
  case Nil
  then show ?thesis by (simp add: emit_Nil)
next
  case (Cons i items')
  let ?tail = "concat (map (\<lambda>i. CHR '','' # f i) items') @ rest"
  have d: "delim ?tail" using assms(2) by (rule delim_concat)
  have "lex_run LNormal (join_comma (map f items) @ rest) = lex_run LNormal (f i @ ?tail)"
    by (simp add: Cons join_comma_Cons comp_def)
  also have "\<dots> = emit (g i) (lex_run LNormal ?tail)"
    using each [of i ?tail] d Cons by simp
  also have "lex_run LNormal ?tail =
             emit (concat (map (\<lambda>i. Comma # g i) items')) (lex_run LNormal rest)"
    using each assms(2) Cons by (intro lex_separated) simp_all
  finally show ?thesis by (simp add: Cons join_toks_Cons comp_def emit_emit)
qed

lemma lex_value:
  "json_ok v \<Longrightarrow> delim rest \<Longrightarrow>
   lex_run LNormal (JSON_stringify v @ rest) = emit (toks v) (lex_run LNormal rest)"
proof (induction v arbitrary: rest)
  case JNull
  then show ?case using lex_null [of rest] by simp
next
  case (JBool b)
  then show ?case using lex_true [of rest] lex_false [of rest] by simp
next
  case (JNum n)
  then show ?case using lex_number [of n rest] by simp
next
  case (JStr s)
  then show ?case using lex_quote [of s rest] by simp
next
  case (JArr xs)
  have "lex_run LNormal (join_comma (map JSON_stringify xs) @ CHR '']'' # rest) =
        emit (join_toks (map toks xs)) (lex_run LNormal (CHR '']'' # rest))"
  proof (rule lex_joined)
    fix i r assume "i \<in> set xs" "delim r"
    then show "lex_run LNormal (JSON_stringify i @ r) = emit (toks i) (lex_run LNormal r)"
      using JArr.IH [of i r] JArr.prems(1) by (simp add: list_all_iff)
  qed (simp add: delim_simps)
  then show ?case by (simp add: lex_punct emit_emit del: lex_run.simps)
next
  case (JObj fs)
  let ?f = "\<lambda>kv. quote (fst kv) @ '':'' @ JSON_stringify (snd kv)"
  let ?g = "\<lambda>kv. TStr (fst kv) # Colon # toks (snd kv)"
  have "lex_run LNormal (join_comma (map ?f fs) @ CHR ''}'' # rest) =
        emit (join_toks (map ?g fs)) (lex_run LNormal (CHR ''}'' # rest))"
  proof (rule lex_joined)
    fix kv r assume kv: "kv \<in> set fs" and r: "delim r"
    have ok: "json_ok (snd kv)" using JObj.prems(1) kv by (simp add: list_all_iff)
    have "lex_run LNormal (JSON_stringify (snd kv) @ r) = emit (toks (snd kv)) (lex_run LNormal r)"
      using JObj.IH [of kv "snd kv" r] kv ok r by (cases kv) simp
    then show "lex_run LNormal (?f kv @ r) = emit (?g kv) (lex_run LNormal r)"
      by (simp add: lex_quote lex_punct emit_emit del: lex_run.simps)
  qed (simp add: delim_simps)
  then show ?case by (simp add: lex_punct emit_emit del: lex_run.simps)
qed

lemma lex_stringify: "json_ok v \<Longrightarrow> lex_run LNormal (JSON_stringify v) = Some (toks v)"
  using lex_value [of v "[]"] by (simp add: delim_simps emit_def)

section \<open>The parser rebuilds the printed value\<close>

lemma parse_run_Cons: "parse_run m stk (t # ts) = continue_with (parse_step m stk t) ts"
  by (simp add: continue_with_def split: option.splits)

lemma parse_step_PFirst:
  "t \<noteq> RBrack \<Longrightarrow> parse_step PFirst stk t = start_value t stk"
proof (cases stk)
  case Nil
  then show ?thesis by simp
next
  case (Cons fr stk')
  assume "t \<noteq> RBrack"
  then show ?thesis unfolding Cons by (cases fr; cases t) simp_all
qed

lemma parse_first:
  assumes "m = PValue \<or> m = PFirst" "t \<noteq> RBrack"
  shows "parse_run m stk (t # ts) = continue_with (start_value t stk) ts"
  using assms by (auto simp: parse_run_Cons parse_step_PFirst simp del: parse_run.simps)

lemma obj_set_fresh: "k \<notin> fst ` set fs \<Longrightarrow> obj_set k v fs = fs @ [(k, v)]"
  by (induction fs) auto

lemma parse_elements:
  assumes each: "\<And>x stk rest. x \<in> set xs \<Longrightarrow>
             parse_run PValue stk (toks x @ rest) = continue_with (deliver x stk) rest"
  shows "parse_run PArrNext (ArrF acc # stk) (concat (map (\<lambda>y. Comma # toks y) xs) @ RBrack # rest) =
         continue_with (deliver (JArr (acc @ xs)) stk) rest"
  using each
proof (induction xs arbitrary: acc)
  case Nil
  show ?case by (simp add: parse_run_Cons del: parse_run.simps)
next
  case (Cons x xs)
  let ?tail = "concat (map (\<lambda>y. Comma # toks y) xs) @ RBrack # rest"
  have "parse_run PArrNext (ArrF acc # stk) (concat (map (\<lambda>y. Comma # toks y) (x # xs)) @ RBrack # rest)
        = parse_run PValue (ArrF acc # stk) (toks x @ ?tail)"
    by (simp add: parse_run_Cons continue_with_def del: parse_run.simps)
  also have "\<dots> = continue_with (deliver x (ArrF acc # stk)) ?tail"
    using Cons.prems [of x] by simp
  also have "\<dots> = parse_run PArrNext (ArrF (acc @ [x]) # stk) ?tail"
    by (simp add: continue_with_def)
  also have "\<dots> = continue_with (deliver (JArr ((acc @ [x]) @ xs)) stk) rest"
    using Cons.prems by (intro Cons.IH) simp
  finally show ?case by simp
qed

lemma parse_members:
  assumes each: "\<And>kv stk rest. kv \<in> set fs \<Longrightarrow>
             parse_run PValue stk (toks (snd kv) @ rest) = continue_with (deliver (snd kv) stk) rest"
    and "distinct (map fst (acc @ fs))"
  shows "parse_run PObjNext (ObjF acc # stk)
           (concat (map (\<lambda>kv. Comma # TStr (fst kv) # Colon # toks (snd kv)) fs) @ RBrace # rest) =
         continue_with (deliver (JObj (acc @ fs)) stk) rest"
  using assms
proof (induction fs arbitrary: acc)
  case Nil
  show ?case by (simp add: parse_run_Cons del: parse_run.simps)
next
  case (Cons kv fs)
  let ?g = "\<lambda>kv. Comma # TStr (fst kv) # Colon # toks (snd kv)"
  let ?tail = "concat (map ?g fs) @ RBrace # rest"
  have fresh: "fst kv \<notin> fst ` set acc" using Cons.prems(2) by auto
  have "parse_run PObjNext (ObjF acc # stk) (concat (map ?g (kv # fs)) @ RBrace # rest)
        = parse_run PValue (KeyF acc (fst kv) # stk) (toks (snd kv) @ ?tail)"
    by (simp add: parse_run_Cons continue_with_def del: parse_run.simps)
  also have "\<dots> = continue_with (deliver (snd kv) (KeyF acc (fst kv) # stk)) ?tail"
    using Cons.prems(1) [of kv] by simp
  also have "\<dots> = parse_run PObjNext (ObjF (acc @ [kv]) # stk) ?tail"
    using fresh by (simp add: continue_with_def obj_set_fresh)
  also have "\<dots> = continue_with (deliver (JObj ((acc @ [kv]) @ fs)) stk) rest"
    using Cons.prems by (intro Cons.IH) simp_all
  finally show ?case by simp
qed

lemma toks_not_RBrack: "\<exists>t ts. toks v = t # ts \<and> t \<noteq> RBrack"
  by (cases v) auto

lemma parse_value_first:
  assumes "parse_run PValue stk (toks v @ rest) = continue_with (deliver v stk) rest"
  shows "parse_run PFirst stk (toks v @ rest) = continue_with (deliver v stk) rest"
proof -
  obtain t ts where t: "toks v = t # ts" "t \<noteq> RBrack" using toks_not_RBrack by blast
  have "parse_run PFirst stk (toks v @ rest) = parse_run PValue stk (toks v @ rest)"
    unfolding t using t(2) by (simp add: parse_first del: parse_run.simps)
  with assms show ?thesis by simp
qed

lemma parse_value:
  "json_ok v \<Longrightarrow> parse_run PValue stk (toks v @ rest) = continue_with (deliver v stk) rest"
proof (induction v arbitrary: stk rest)
  case (JArr xs)
  show ?case
  proof (cases xs)
    case Nil
    then show ?thesis by (simp add: parse_run_Cons continue_with_def del: parse_run.simps)
  next
    case (Cons x xs')
    let ?tail = "concat (map (\<lambda>y. Comma # toks y) xs') @ RBrack # rest"
    have ih: "parse_run PValue s (toks y @ r) = continue_with (deliver y s) r"
      if "y \<in> set xs" for y s r
      using JArr.IH [OF that] JArr.prems that by (simp add: list_all_iff)
    have "parse_run PValue stk (toks (JArr xs) @ rest) =
          parse_run PFirst (ArrF [] # stk) (toks x @ ?tail)"
      by (simp add: Cons join_toks_Cons comp_def parse_run_Cons continue_with_def
               del: parse_run.simps)
    also have "\<dots> = continue_with (deliver x (ArrF [] # stk)) ?tail"
      using ih [of x] Cons by (intro parse_value_first) simp
    also have "\<dots> = parse_run PArrNext (ArrF [x] # stk) ?tail"
      by (simp add: continue_with_def)
    also have "\<dots> = continue_with (deliver (JArr ([x] @ xs')) stk) rest"
      using ih Cons by (intro parse_elements) simp
    finally show ?thesis by (simp add: Cons)
  qed
next
  case (JObj fs)
  show ?case
  proof (cases fs)
    case Nil
    then show ?thesis by (simp add: parse_run_Cons continue_with_def del: parse_run.simps)
  next
    case (Cons kv fs')
    let ?g = "\<lambda>kv. Comma # TStr (fst kv) # Colon # toks (snd kv)"
    let ?tail = "concat (map ?g fs') @ RBrace # rest"
    have ih: "parse_run PValue s (toks (snd e) @ r) = continue_with (deliver (snd e) s) r"
      if "e \<in> set fs" for e s r
    proof -
      have "json_ok (snd e)" using JObj.prems that by (simp add: list_all_iff)
      then show ?thesis using JObj.IH [of e "snd e" s r] that by (cases e) simp
    qed
    have d: "distinct (map fst fs)" using JObj.prems by simp
    have "parse_run PValue stk (toks (JObj fs) @ rest) =
          parse_run PValue (KeyF [] (fst kv) # stk) (toks (snd kv) @ ?tail)"
      by (simp add: Cons join_toks_Cons comp_def parse_run_Cons continue_with_def
               del: parse_run.simps)
    also have "\<dots> = continue_with (deliver (snd kv) (KeyF [] (fst kv) # stk)) ?tail"
      using ih [of kv] Cons by simp
    also have "\<dots> = parse_run PObjNext (ObjF [kv] # stk) ?tail"
      by (simp add: continue_with_def)
    also have "\<dots> = continue_with (deliver (JObj ([kv] @ fs')) stk) rest"
      using ih d Cons by (intro parse_members) simp_all
    finally show ?thesis by (simp add: Cons)
  qed
qed (simp_all add: parse_run_Cons del: parse_run.simps)

lemma parse_toks: "json_ok v \<Longrightarrow> parse_run PValue [] (toks v) = Some v"
  using parse_value [of v "[]" "[]"] by (simp add: continue_with_def)

lemma JSON_parse_stringify: "json_ok v \<Longrightarrow> JSON_parse (JSON_stringify v) = Some v"
  by (simp add: JSON_parse_def lex_stringify parse_toks)

section \<open>The encoder and its inverse\<close>

lemma snd_in_snds: "snd kv \<in> Basic_BNFs.snds kv"
  by (cases kv) simp

lemma insort_key_map_snd:
  "insort_key fst (fst kv, h (snd kv)) (map (\<lambda>kv. (fst kv, h (snd kv))) fs) =
   map (\<lambda>kv. (fst kv, h (snd kv))) (insort_key fst kv fs)"
  by (induction fs) auto

lemma sort_key_map_snd:
  "sort_key fst (map (\<lambda>kv. (fst kv, h (snd kv))) fs) =
   map (\<lambda>kv. (fst kv, h (snd kv))) (sort_key fst fs)"
  by (induction fs) (simp_all add: insort_key_map_snd)

lemma stringify_sortKeys: "stringify v = JSON_stringify (sortKeysRecursive v)"
proof (induction v)
  case (JArr xs)
  then show ?case by (simp add: comp_def cong: map_cong)
next
  case (JObj fs)
  let ?F = "\<lambda>kv. quote (fst kv) @ '':'' @ stringify (snd kv)"
  let ?G = "\<lambda>kv. quote (fst kv) @ '':'' @ JSON_stringify (sortKeysRecursive (snd kv))"
  have eq: "map ?F (sort_key fst fs) = map ?G (sort_key fst fs)"
  proof (rule map_cong [OF refl])
    fix kv assume "kv \<in> set (sort_key fst fs)"
    then have "kv \<in> set fs" by simp
    then have "stringify (snd kv) = JSON_stringify (sortKeysRecursive (snd kv))"
      by (rule JObj.IH [OF _ snd_in_snds])
    then show "quote (fst kv) @ '':'' @ stringify (snd kv) =
               quote (fst kv) @ '':'' @ JSON_stringify (sortKeysRecursive (snd kv))"
      by simp
  qed
  have "stringify (JObj fs) = ''{'' @ join_comma (map ?F (sort_key fst fs)) @ ''}''"
    by simp
  also have "\<dots> = ''{'' @ join_comma (map ?G (sort_key fst fs)) @ ''}''"
    by (simp only: eq)
  also have "\<dots> = JSON_stringify (sortKeysRecursive (JObj fs))"
    by (simp add: sort_key_map_snd comp_def)
  finally show ?case .
qed simp_all

lemma json_ok_sortKeys: "json_ok v \<Longrightarrow> json_ok (sortKeysRecursive v)"
proof (induction v)
  case (JArr xs)
  then show ?case by (simp add: list_all_iff)
next
  case (JObj fs)
  have d: "distinct (map fst (sort_key fst (map (\<lambda>kv. (fst kv, sortKeysRecursive (snd kv))) fs)))"
    using JObj.prems by (simp add: distinct_map_sort_key comp_def)
  have "json_ok (sortKeysRecursive (snd kv))" if "kv \<in> set fs" for kv
    using JObj.IH [OF that snd_in_snds] JObj.prems that by (simp add: list_all_iff)
  then show ?case using d by (simp add: list_all_iff)
qed simp_all

lemma sorted_sortKeys_fields:
  "sortKeysRecursive (JObj fs) = JObj gs \<Longrightarrow> sorted (map fst gs)"
  by auto

lemma sortKeys_idem: "sortKeysRecursive (sortKeysRecursive v) = sortKeysRecursive v"
proof (induction v)
  case (JArr xs)
  then show ?case by (simp add: comp_def cong: map_cong)
next
  case (JObj fs)
  let ?g = "\<lambda>kv. (fst kv, sortKeysRecursive (snd kv))"
  have gg: "map ?g (map ?g fs) = map ?g fs"
  proof -
    have "?g (?g kv) = ?g kv" if "kv \<in> set fs" for kv
      using JObj.IH [OF that snd_in_snds] by simp
    then show ?thesis by (simp add: comp_def cong: map_cong)
  qed
  have "sort_key fst (map ?g (sort_key fst (map ?g fs))) =
        sort_key fst (sort_key fst (map ?g (map ?g fs)))"
    by (simp only: sort_key_map_snd)
  also have "\<dots> = sort_key fst (sort_key fst (map ?g fs))"
    by (simp only: gg)
  also have "\<dots> = sort_key fst (map ?g fs)"
    by (simp add: sort_key_id_if_sorted)
  finally show ?case by simp
qed simp_all

lemma JSON_parse_encode: "json_ok v \<Longrightarrow> JSON_parse (encode v) = Some (sortKeysRecursive v)"
  by (simp add: encode_def stringify_sortKeys sortKeys_idem JSON_parse_stringify json_ok_sortKeys)

lemma encode_sortKeys: "encode (sortKeysRecursive v) = encode v"
  by (simp add: encode_def sortKeys_idem)

lemma encode_nonempty: "encode (JObj fs) \<noteq> []"
  by (simp add: encode_def)

lemma sortKeys_asset_literal:
  "sortKeysRecursive (asset_literal id' snr vbat latitude longitude gas_resistance temperature
      pressure humidity light gyroscope accelerometer owner) =
   JObj (sorted_asset id' snr vbat latitude longitude gas_resistance temperature
      pressure humidity light gyroscope accelerometer owner)"
  by (simp add: asset_literal_def sorted_asset_def comp_def less_eq_char_def)

section \<open>Parsed values are well-formed\<close>

lemma lex_normal_ok: "lex_normal c = Some (ts, st) \<Longrightarrow> list_all token_ok ts"
  by (auto simp: lex_normal_def split: if_splits)

lemma keyword_ok: "keyword w = Some t \<Longrightarrow> token_ok t"
  by (auto simp: keyword_def split: if_splits)

lemma lex_step_ok: "lex_step st c = Some (ts, st') \<Longrightarrow> list_all token_ok ts"
  by (cases st) (auto split: if_splits option.splits dest: lex_normal_ok keyword_ok)

lemma lex_finish_ok: "lex_finish st = Some ts \<Longrightarrow> list_all token_ok ts"
  by (cases st) (auto split: if_splits dest: keyword_ok)

lemma lex_run_ok: "lex_run st s = Some ts \<Longrightarrow> list_all token_ok ts"
proof (induction s arbitrary: st ts)
  case Nil
  then show ?case by (simp add: lex_finish_ok)
next
  case (Cons c s)
  from Cons.prems obtain us st' vs where
    step: "lex_step st c = Some (us, st')" and run: "lex_run st' s = Some vs" and ts: "ts = us @ vs"
    by (auto simp: emit_def split: option.splits)
  from lex_step_ok [OF step] Cons.IH [OF run] ts show ?case by simp
qed

lemma set_obj_set: "set (map fst (obj_set k v fs)) = insert k (set (map fst fs))"
  by (induction fs) auto

lemma distinct_obj_set: "distinct (map fst fs) \<Longrightarrow> distinct (map fst (obj_set k v fs))"
proof (induction fs)
  case Nil
  show ?case by simp
next
  case (Cons kv fs)
  then show ?case using set_obj_set [of k v fs] by auto
qed

lemma values_obj_set:
  "list_all (\<lambda>kv. P (snd kv)) fs \<Longrightarrow> P v \<Longrightarrow> list_all (\<lambda>kv. P (snd kv)) (obj_set k v fs)"
  by (induction fs) auto

lemma json_ok_obj_set: "json_ok (JObj fs) \<Longrightarrow> json_ok v \<Longrightarrow> json_ok (JObj (obj_set k v fs))"
  by (simp add: distinct_obj_set values_obj_set)

lemma deliver_ok:
  assumes "deliver v stk = Some (m, stk')" "json_ok v" "list_all frame_ok stk"
  shows "pmode_ok m \<and> list_all frame_ok stk'"
proof (cases stk)
  case Nil
  with assms show ?thesis by auto
next
  case (Cons fr rest)
  show ?thesis
  proof (cases fr)
    case (ArrF xs)
    with assms Cons show ?thesis by auto
  next
    case (ObjF fs)
    with assms Cons show ?thesis by simp
  next
    case (KeyF fs k)
    with assms Cons json_ok_obj_set [of fs v k] show ?thesis by auto
  qed
qed

lemma start_value_ok:
  assumes "start_value t stk = Some (m, stk')" "token_ok t" "list_all frame_ok stk"
  shows "pmode_ok m \<and> list_all frame_ok stk'"
  using assms by (cases t) (auto dest: deliver_ok)

lemma parse_step_ok:
  assumes "parse_step m0 stk t = Some (m, stk')" "token_ok t" "list_all frame_ok stk"
  shows "pmode_ok m \<and> list_all frame_ok stk'"
  using assms
proof (induction m0 stk t rule: parse_step.induct)
qed (auto dest: deliver_ok start_value_ok)

lemma parse_run_ok:
  "parse_run m stk ts = Some v \<Longrightarrow> pmode_ok m \<Longrightarrow> list_all frame_ok stk \<Longrightarrow>
   list_all token_ok ts \<Longrightarrow> json_ok v"
proof (induction ts arbitrary: m stk)
  case Nil
  then show ?case by (cases m) simp_all
next
  case (Cons t ts)
  from Cons.prems(1) obtain m' stk' where
    step: "parse_step m stk t = Some (m', stk')" and run: "parse_run m' stk' ts = Some v"
    by (auto split: option.splits)
  from parse_step_ok [OF step] Cons.prems have "pmode_ok m'" "list_all frame_ok stk'"
    by simp_all
  with Cons.IH [OF run] Cons.prems(4) show ?case by simp
qed

lemma JSON_parse_ok: "JSON_parse s = Some v \<Longrightarrow> json_ok v"
  by (auto simp: JSON_parse_def split: option.splits dest!: lex_run_ok intro: parse_run_ok)

section \<open>Facts about the transactions\<close>

lemma AssetExists_putState: "v \<noteq> [] \<Longrightarrow> AssetExists (putState k v st) k"
  by (simp add: AssetExists_def getState_putState_same)

lemma ReadAsset_putState: "v \<noteq> [] \<Longrightarrow> ReadAsset (putState k v st) k = Inr v"
  by (simp add: ReadAsset_def getState_putState_same)

lemma decoded_putState:
  "json_ok (JObj fs) \<Longrightarrow>
   decoded (putState k (encode (JObj fs)) st) k = Some (sortKeysRecursive (JObj fs))"
  by (simp only: decoded_def ReadAsset_putState [OF encode_nonempty] JSON_parse_encode sum.case)

lemma asset_literal_obj:
  "\<exists>fs. asset_literal id' snr vbat latitude longitude gas_resistance temperature pressure humidity
     light gyroscope accelerometer owner = JObj fs"
  by (simp add: asset_literal_def)

lemma CreateAsset_absent:
  "\<not> AssetExists st k \<Longrightarrow>
   CreateAsset st k snr vbat latitude longitude gas_resistance temperature pressure humidity
     light gyroscope accelerometer owner =
   (Inr (), putState k (encode (asset_literal k snr vbat latitude longitude gas_resistance
       temperature pressure humidity light gyroscope accelerometer owner)) st)"
  by (simp add: CreateAsset_def)

lemma CreateAsset_ok_iff:
  "fst (CreateAsset st k snr vbat latitude longitude gas_resistance temperature pressure humidity
     light gyroscope accelerometer owner) = Inr () \<longleftrightarrow> \<not> AssetExists st k"
  by (simp add: CreateAsset_def)

lemma AssetExists_after_create:
  "\<not> AssetExists st k \<Longrightarrow>
   AssetExists (snd (CreateAsset st k snr vbat latitude longitude gas_resistance temperature
     pressure humidity light gyroscope accelerometer owner)) k"
  using asset_literal_obj [of k snr vbat latitude longitude gas_resistance temperature
     pressure humidity light gyroscope accelerometer owner]
  by (auto simp: CreateAsset_absent AssetExists_putState encode_nonempty)

lemma decoded_after_create:
  assumes "\<not> AssetExists st k"
    and "json_ok (asset_literal k snr vbat latitude longitude gas_resistance temperature
           pressure humidity light gyroscope accelerometer owner)"
  shows "decoded (snd (CreateAsset st k snr vbat latitude longitude gas_resistance temperature
           pressure humidity light gyroscope accelerometer owner)) k =
         Some (JObj (sorted_asset k snr vbat latitude longitude gas_resistance temperature
           pressure humidity light gyroscope accelerometer owner))"
proof -
  obtain fs where fs: "asset_literal k snr vbat latitude longitude gas_resistance temperature
           pressure humidity light gyroscope accelerometer owner = JObj fs"
    using asset_literal_obj by blast
  show ?thesis
    using assms(2) decoded_putState [of fs k st] sortKeys_asset_literal [of k snr vbat latitude
      longitude gas_resistance temperature pressure humidity light gyroscope accelerometer owner]
    by (simp add: CreateAsset_absent [OF assms(1)] fs)
qed

lemma number_ok_examples:
  "number_ok ''0''" "number_ok ''5''" "number_ok ''0.5''" "number_ok ''3.3''"
  "number_ok ''45.464664''" "number_ok ''12.2629''" "number_ok ''31.7''"
  "number_ok ''1000.5''" "number_ok ''50.5''"
  by (simp_all add: number_ok_def int_ok_def frac_ok_def exp_ok_def is_numchar_def is_digit_def
        less_eq_char_def)

lemma json_ok_asset_literal:
  "json_ok (asset_literal id' snr vbat latitude longitude gas_resistance temperature pressure
      humidity light gyroscope accelerometer owner) \<longleftrightarrow>
   number_ok snr \<and> number_ok vbat \<and> number_ok latitude \<and> number_ok longitude \<and>
   number_ok gas_resistance \<and> number_ok temperature \<and> number_ok pressure \<and>
   number_ok humidity \<and> number_ok light \<and> list_all number_ok gyroscope \<and>
   list_all number_ok accelerometer"
  by (simp add: asset_literal_def list_all_iff)

lemma json_ok_sorted_asset:
  "json_ok (JObj (sorted_asset id' snr vbat latitude longitude gas_resistance temperature pressure
      humidity light gyroscope accelerometer owner)) \<longleftrightarrow>
   json_ok (asset_literal id' snr vbat latitude longitude gas_resistance temperature pressure
      humidity light gyroscope accelerometer owner)"
  unfolding json_ok_asset_literal by (auto simp: sorted_asset_def list_all_iff)

lemma sortKeys_sorted_asset:
  "sortKeysRecursive (JObj (sorted_asset id' snr vbat latitude longitude gas_resistance
      temperature pressure humidity light gyroscope accelerometer owner)) =
   JObj (sorted_asset id' snr vbat latitude longitude gas_resistance
      temperature pressure humidity light gyroscope accelerometer owner)"
  using sortKeys_idem [of "asset_literal id' snr vbat latitude longitude gas_resistance
      temperature pressure humidity light gyroscope accelerometer owner"]
  by (simp only: sortKeys_asset_literal)

lemma owner_sorted_asset:
  "map_of (sorted_asset id' snr vbat latitude longitude gas_resistance
      temperature pressure humidity light gyroscope accelerometer owner) ''Owner'' =
   Some (JStr owner)"
  by (simp add: sorted_asset_def)

lemma obj_set_owner_sorted_asset:
  "obj_set ''Owner'' (JStr newOwner) (sorted_asset id' snr vbat latitude longitude gas_resistance
      temperature pressure humidity light gyroscope accelerometer owner) =
   sorted_asset id' snr vbat latitude longitude gas_resistance
      temperature pressure humidity light gyroscope accelerometer newOwner"
  by (simp add: sorted_asset_def)

lemma field_sorted_asset_owner:
  "field (JObj (sorted_asset id' snr vbat latitude longitude gas_resistance
      temperature pressure humidity light gyroscope accelerometer newOwner)) =
   (field (JObj (sorted_asset id' snr vbat latitude longitude gas_resistance
      temperature pressure humidity light gyroscope accelerometer owner)))
     (''Owner'' \<mapsto> JStr newOwner)"
  by (rule ext) (simp add: field_def sorted_asset_def)

lemma TransferAsset_parsed:
  assumes "ReadAsset st k = Inr text" "JSON_parse text = Some (JObj fs)"
  shows "TransferAsset st k newOwner =
         (Inr (map_of fs ''Owner''),
          putState k (encode (JObj (obj_set ''Owner'' (JStr newOwner) fs))) st)"
  using assms by (simp add: TransferAsset_def)

lemma decoded_put_sorted_asset:
  assumes "json_ok (asset_literal k snr vbat latitude longitude gas_resistance temperature
             pressure humidity light gyroscope accelerometer owner)"
  shows "decoded (putState k (encode (JObj (sorted_asset k snr vbat latitude longitude
             gas_resistance temperature pressure humidity light gyroscope accelerometer owner)))
           st) k =
         Some (JObj (sorted_asset k snr vbat latitude longitude gas_resistance temperature
             pressure humidity light gyroscope accelerometer owner))"
  using assms
  by (simp only: decoded_putState json_ok_sorted_asset sortKeys_sorted_asset)

lemma encode_asset_literal:
  "encode (asset_literal k snr vbat latitude longitude gas_resistance temperature
             pressure humidity light gyroscope accelerometer owner) =
   encode (JObj (sorted_asset k snr vbat latitude longitude gas_resistance temperature
             pressure humidity light gyroscope accelerometer owner))"
  using encode_sortKeys [of "asset_literal k snr vbat latitude longitude gas_resistance
             temperature pressure humidity light gyroscope accelerometer owner"]
  by (simp only: sortKeys_asset_literal)

lemma UpdateAsset_present:
  "AssetExists st k \<Longrightarrow>
   UpdateAsset st k snr vbat latitude longitude gas_resistance temperature pressure humidity
     light gyroscope accelerometer owner =
   (Inr (), putState k (encode (asset_literal k snr vbat latitude longitude gas_resistance
       temperature pressure humidity light gyroscope accelerometer owner)) st)"
  by (simp add: UpdateAsset_def)

lemma GetAllAssets_loop_map:
  "GetAllAssets_loop iterator allResults = allResults @ map (\<lambda>e. entry (snd e)) iterator"
  by (induction iterator arbitrary: allResults) (simp_all add: entry_def Let_def)

lemma getStateByRange_all: "getStateByRange st [] [] = st"
  by (simp add: getStateByRange_def)

lemma json_ok_entry: "json_ok (entry text)"
  by (auto simp: entry_def split: option.splits dest: JSON_parse_ok)

lemma example_args_ok:
  "json_ok (asset_literal k ''0.5'' ''3.3'' ''45.464664'' ''12.2629'' ''0.5'' ''31.7'' ''1000.5''
      ''50.5'' ''0.5'' [''0.5'', ''3.3'', ''0''] [''5'', ''0'', ''0.5''] owner)"
  unfolding json_ok_asset_literal by (simp add: number_ok_examples)

lemma absent_in_empty: "\<not> AssetExists [] k"
  by (simp add: AssetExists_def getState_def)

lemma docType_sorted_asset:
  "field (JObj (sorted_asset id' snr vbat latitude longitude gas_resistance temperature
      pressure humidity light gyroscope accelerometer owner)) ''docType'' = None"
  by (simp add: field_def sorted_asset_def)

lemma decoded_InitLedger_docType:
  "(case decoded (snd (InitLedger [])) ''basdni7s8acadad8a9d8'' of
      None \<Rightarrow> None | Some r \<Rightarrow> field r ''docType'') = Some (JStr ''asset'')"
proof -
  let ?fs = "[(''ID'', JStr ''basdni7s8acadad8a9d8''),
              (''SNR'', JNum ''0.5''),
              (''VBAT'', JNum ''3.3''),
              (''Latitude'', JNum ''45.464664''),
              (''Longitude'', JNum ''12.2629''),
              (''Gas_resistance'', JNum ''0.5''),
              (''Temperature'', JNum ''31.7''),
              (''Pressure'', JNum ''1000.5''),
              (''Humidity'', JNum ''50.5''),
              (''Light'', JNum ''0.5''),
              (''Gyroscope'', JArr [JNum ''0.5'', JNum ''0.5'', JNum ''0.5'']),
              (''Accelerometer'', JArr [JNum ''0.5'', JNum ''0.5'', JNum ''0.5'']),
              (''Owner'', JStr ''Chidera's IoT device 1''),
              (''docType'', JStr ''asset'')]"
  have init: "snd (InitLedger []) = putState ''basdni7s8acadad8a9d8'' (encode (JObj ?fs)) []"
    by (simp add: InitLedger_def assets_def asset_literal_def)
  have ok: "json_ok (JObj ?fs)" by (simp add: number_ok_examples)
  have d: "decoded (snd (InitLedger [])) ''basdni7s8acadad8a9d8'' =
           Some (sortKeysRecursive (JObj ?fs))"
    unfolding init by (rule decoded_putState [OF ok])
  have f: "field (sortKeysRecursive (JObj ?fs)) ''docType'' = Some (JStr ''asset'')"
    by (simp add: field_def less_eq_char_def)
  show ?thesis unfolding d using f by simp
qed

lemma decoded_after_update:
  assumes "AssetExists st k"
    and "json_ok (asset_literal k snr vbat latitude longitude gas_resistance temperature
           pressure humidity light gyroscope accelerometer owner)"
  shows "decoded (snd (UpdateAsset st k snr vbat latitude longitude gas_resistance temperature
           pressure humidity light gyroscope accelerometer owner)) k =
         Some (JObj (sorted_asset k snr vbat latitude longitude gas_resistance temperature
           pressure humidity light gyroscope accelerometer owner))"
  by (simp only: UpdateAsset_present [OF assms(1)] encode_asset_literal snd_conv
        decoded_put_sorted_asset [OF assms(2)])

lemma ReadAsset_after_create:
  assumes "\<not> AssetExists st k"
  shows "ReadAsset (snd (CreateAsset st k snr vbat latitude longitude gas_resistance temperature
           pressure humidity light gyroscope accelerometer owner)) k =
         Inr (encode (asset_literal k snr vbat latitude longitude gas_resistance temperature
           pressure humidity light gyroscope accelerometer owner))"
proof -
  have ne: "encode (asset_literal k snr vbat latitude longitude gas_resistance temperature
           pressure humidity light gyroscope accelerometer owner) \<noteq> []"
    unfolding encode_asset_literal by (rule encode_nonempty)
  show ?thesis
    by (simp only: CreateAsset_absent [OF assms] snd_conv ReadAsset_putState [OF ne])
qed

lemma JSON_parse_encode_asset_literal:
  assumes "json_ok (asset_literal k snr vbat latitude longitude gas_resistance temperature
           pressure humidity light gyroscope accelerometer owner)"
  shows "JSON_parse (encode (asset_literal k snr vbat latitude longitude gas_resistance
           temperature pressure humidity light gyroscope accelerometer owner)) =
         Some (JObj (sorted_asset k snr vbat latitude longitude gas_resistance temperature
           pressure humidity light gyroscope accelerometer owner))"
  using JSON_parse_encode [OF assms] by (simp only: sortKeys_asset_literal)

lemma DeleteAsset_sensor:
  "AssetExists st k \<Longrightarrow>
     DeleteAsset st k = (Inr (), deleteState k st) \<and>
     \<not> AssetExists (deleteState k st) k \<and>
     ReadAsset (deleteState k st) k = Inl (NotFound k) \<and>
     DeleteAsset (deleteState k st) k = (Inl (NotFound k), deleteState k st)"
  "\<not> AssetExists st k \<Longrightarrow> DeleteAsset st k = (Inl (NotFound k), st)"
  by (simp_all add: DeleteAsset_def AssetExists_def ReadAsset_def getState_deleteState_same)

lemma CreateAsset_m_empty:
  "CreateAsset_m [] timestamp methanelevel =
   (Inr (), [(timestamp, encode (metric_literal timestamp methanelevel))])"
  by (simp add: CreateAsset_m_def AssetExists_m_def getState_def)

lemma encode_metric_nonempty: "encode (metric_literal timestamp methanelevel) \<noteq> []"
  unfolding metric_literal_def by (rule encode_nonempty)

section \<open>Facts about canonical texts\<close>

lemma number_canon_ok: "number_canon t \<Longrightarrow> number_ok t"
  by (simp add: number_canon_def)

lemma number_canon_examples:
  "number_canon ''0''" "number_canon ''5''" "number_canon ''0.5''" "number_canon ''3.3''"
  "number_canon ''45.464664''" "number_canon ''12.2629''" "number_canon ''31.7''"
  "number_canon ''1000.5''" "number_canon ''50.5''"
  by (simp_all add: number_canon_def number_ok_examples unsigned_def int_part_def frac_part_def
        exp_part_def is_digit_def less_eq_char_def)

lemma nums_canon_sortKeys: "nums_canon v \<Longrightarrow> nums_canon (sortKeysRecursive v)"
proof (induction v)
  case (JArr xs)
  then show ?case by (simp add: list_all_iff)
next
  case (JObj fs)
  have "nums_canon (sortKeysRecursive (snd kv))" if "kv \<in> set fs" for kv
    using JObj.IH [OF that snd_in_snds] JObj.prems that by (simp add: list_all_iff)
  then show ?case by (simp add: list_all_iff)
qed simp_all

lemma keys_sorted_sortKeys: "json_ok v \<Longrightarrow> keys_sorted (sortKeysRecursive v)"
proof (induction v)
  case (JArr xs)
  then show ?case by (simp add: list_all_iff)
next
  case (JObj fs)
  let ?gs = "sort_key fst (map (\<lambda>kv. (fst kv, sortKeysRecursive (snd kv))) fs)"
  have "distinct (map fst ?gs)"
    using JObj.prems by (simp add: distinct_map_sort_key comp_def)
  then have s: "sorted_wrt (<) (map fst ?gs)"
    by (simp add: strict_sorted_iff)
  have "keys_sorted (sortKeysRecursive (snd kv))" if "kv \<in> set fs" for kv
    using JObj.IH [OF that snd_in_snds] JObj.prems that by (simp add: list_all_iff)
  then show ?case using s by (simp add: list_all_iff)
qed simp_all

lemma nums_canon_obj_set:
  "nums_canon (JObj fs) \<Longrightarrow> nums_canon v \<Longrightarrow> nums_canon (JObj (obj_set k v fs))"
  by (simp add: values_obj_set)

lemma hexdigit_plain:
  assumes "d < 16"
  shows "hexdigit d \<noteq> CHR 0x22 \<and> hexdigit d \<noteq> CHR 0x5C"
proof -
  have "hexval (CHR 0x22) = None" "hexval (CHR 0x5C) = None"
    by (simp_all add: hexval_def is_digit_def less_eq_char_def)
  with hexval_hexdigit [OF assms] show ?thesis by auto
qed

lemma compact_escape_char:
  "compact_from Inside (escape_char c @ tail) = compact_from Inside tail"
proof (cases "c = CHR 0x22 \<or> c = CHR 0x5C \<or> c = CHR 0x08 \<or> c = CHR 0x0C \<or> c = CHR 0x0A
           \<or> c = CHR 0x0D \<or> c = CHR 0x09")
  case True
  then show ?thesis by (elim disjE) (simp_all add: escape_char_def)
next
  case False
  show ?thesis
  proof (cases "(of_char c :: nat) < 32")
    case True
    let ?n = "of_char c :: nat"
    have hi: "hexdigit (?n div 16) \<noteq> CHR 0x22 \<and> hexdigit (?n div 16) \<noteq> CHR 0x5C"
      using True by (intro hexdigit_plain) simp
    have lo: "hexdigit (?n mod 16) \<noteq> CHR 0x22 \<and> hexdigit (?n mod 16) \<noteq> CHR 0x5C"
      by (intro hexdigit_plain) simp
    have esc: "escape_char c = [CHR 0x5C, CHR ''u'', CHR ''0'', CHR ''0'',
            hexdigit (?n div 16), hexdigit (?n mod 16)]"
      using False True by (simp add: escape_char_def)
    show ?thesis unfolding esc using hi lo by simp
  next
    case plain: False
    with False have "escape_char c = [c]" by (simp add: escape_char_def)
    with False show ?thesis by simp
  qed
qed

lemma compact_string_body:
  "compact_from Inside (concat (map escape_char s) @ CHR 0x22 # rest) = compact_from Outside rest"
proof (induction s)
  case Nil
  show ?case by simp
next
  case (Cons c s)
  have "compact_from Inside (concat (map escape_char (c # s)) @ CHR 0x22 # rest) =
        compact_from Inside (escape_char c @ (concat (map escape_char s) @ CHR 0x22 # rest))"
    by simp
  also have "\<dots> = compact_from Inside (concat (map escape_char s) @ CHR 0x22 # rest)"
    by (rule compact_escape_char)
  finally show ?case using Cons.IH by simp
qed

lemma compact_quote: "compact_from Outside (quote s @ rest) = compact_from Outside rest"
  using compact_string_body [of s rest] by (simp add: quote_def is_ws_def)

lemma is_numchar_plain: "is_numchar c \<Longrightarrow> \<not> is_ws c \<and> c \<noteq> CHR 0x22"
proof -
  assume "is_numchar c"
  then consider "is_digit c" | "c = CHR ''-''" | "c = CHR ''+''" | "c = CHR ''.''"
    | "c = CHR ''e''" | "c = CHR ''E''"
    by (auto simp: is_numchar_def)
  then show ?thesis
  proof cases
    case 1
    then have b: "48 \<le> (of_char c :: nat)" by (simp add: is_digit_def less_eq_char_def)
    have ne: "c \<noteq> d" if "(of_char d :: nat) < 48" for d using b that by auto
    show ?thesis
      unfolding is_ws_def
      using ne [of "CHR '' ''"] ne [of "CHR 0x09"] ne [of "CHR 0x0A"] ne [of "CHR 0x0D"]
        ne [of "CHR 0x22"] by simp
  qed (simp_all add: is_ws_def)
qed

lemma compact_number:
  "list_all is_numchar n \<Longrightarrow> compact_from Outside (n @ rest) = compact_from Outside rest"
  by (induction n) (simp_all add: is_numchar_plain)

lemma compact_separated:
  assumes "\<And>i rest. i \<in> set items \<Longrightarrow>
             compact_from Outside (f i @ rest) = compact_from Outside rest"
  shows "compact_from Outside (concat (map (\<lambda>i. CHR '','' # f i) items) @ rest) =
         compact_from Outside rest"
  using assms by (induction items) (simp_all add: is_ws_def)

lemma compact_joined:
  assumes "\<And>i rest. i \<in> set items \<Longrightarrow>
             compact_from Outside (f i @ rest) = compact_from Outside rest"
  shows "compact_from Outside (join_comma (map f items) @ rest) = compact_from Outside rest"
proof (cases items)
  case Nil
  then show ?thesis by simp
next
  case (Cons i items')
  have "compact_from Outside (join_comma (map f items) @ rest) =
        compact_from Outside (f i @ concat (map (\<lambda>i. CHR '','' # f i) items') @ rest)"
    by (simp add: Cons join_comma_Cons comp_def)
  also have "\<dots> = compact_from Outside (concat (map (\<lambda>i. CHR '','' # f i) items') @ rest)"
    using assms [of i] Cons by simp
  also have "\<dots> = compact_from Outside rest"
    using assms Cons by (intro compact_separated) simp
  finally show ?thesis .
qed

lemma compact_value:
  "json_ok v \<Longrightarrow> compact_from Outside (JSON_stringify v @ rest) = compact_from Outside rest"
proof (induction v arbitrary: rest)
  case (JNum n)
  then show ?case by (simp add: compact_number number_ok_def)
next
  case (JStr s)
  show ?case by (simp add: compact_quote)
next
  case (JArr xs)
  have "compact_from Outside (join_comma (map JSON_stringify xs) @ CHR '']'' # rest) =
        compact_from Outside (CHR '']'' # rest)"
  proof (rule compact_joined)
    fix i r assume "i \<in> set xs"
    then show "compact_from Outside (JSON_stringify i @ r) = compact_from Outside r"
      using JArr.IH [of i r] JArr.prems by (simp add: list_all_iff)
  qed
  then show ?case by (simp add: is_ws_def)
next
  case (JObj fs)
  let ?f = "\<lambda>kv. quote (fst kv) @ '':'' @ JSON_stringify (snd kv)"
  have "compact_from Outside (join_comma (map ?f fs) @ CHR ''}'' # rest) =
        compact_from Outside (CHR ''}'' # rest)"
  proof (rule compact_joined)
    fix kv r assume kv: "kv \<in> set fs"
    have ok: "json_ok (snd kv)" using JObj.prems kv by (simp add: list_all_iff)
    have "compact_from Outside (JSON_stringify (snd kv) @ r) = compact_from Outside r"
      using JObj.IH [OF kv snd_in_snds ok] .
    then show "compact_from Outside (?f kv @ r) = compact_from Outside r"
      by (simp add: compact_quote is_ws_def)
  qed
  then show ?case by (simp add: is_ws_def)
qed (simp_all add: is_ws_def)

lemma compact_stringify: "json_ok v \<Longrightarrow> compact (JSON_stringify v)"
  using compact_value [of v "[]"] by (simp add: compact_def)

lemma canonical_encode:
  assumes "json_ok (JObj fs)" "nums_canon (JObj fs)"
  shows "canonical (encode (JObj fs))"
proof -
  obtain gs where gs: "sortKeysRecursive (JObj fs) = JObj gs" by simp
  have ok: "json_ok (JObj gs)" using json_ok_sortKeys [OF assms(1)] by (simp only: gs)
  have "encode (JObj fs) = JSON_stringify (sortKeysRecursive (JObj fs))"
    by (simp only: encode_def stringify_sortKeys sortKeys_idem)
  then have e: "encode (JObj fs) = JSON_stringify (JObj gs)"
    by (simp only: gs)
  have p: "JSON_parse (JSON_stringify (JObj gs)) = Some (JObj gs)"
    using ok by (rule JSON_parse_stringify)
  have k: "keys_sorted (JObj gs)" using keys_sorted_sortKeys [OF assms(1)] by (simp only: gs)
  have n: "nums_canon (JObj gs)" using nums_canon_sortKeys [OF assms(2)] by (simp only: gs)
  have c: "compact (JSON_stringify (JObj gs))" using ok by (rule compact_stringify)
  show ?thesis
    unfolding e canonical_def using p k n c by (simp only: option.case json.case simp_thms)
qed

lemma canonical_state_putState:
  "canonical_state st \<Longrightarrow> canonical v \<Longrightarrow> canonical_state (putState k v st)"
  unfolding canonical_state_def by (induction st) auto

lemma canonical_state_deleteState:
  "canonical_state st \<Longrightarrow> canonical_state (deleteState k st)"
  by (simp add: canonical_state_def deleteState_def list_all_iff)

lemma canonical_stored:
  "canonical_state st \<Longrightarrow> getState st k = Some v \<Longrightarrow> canonical v"
proof -
  assume st: "canonical_state st" and g: "getState st k = Some v"
  from g have "(k, v) \<in> set st" by (simp add: getState_def map_of_SomeD)
  with st show "canonical v" by (force simp: canonical_state_def list_all_iff)
qed

lemma canonical_parsed:
  assumes "canonical bytes"
  shows "\<exists>fs. JSON_parse bytes = Some (JObj fs) \<and> json_ok (JObj fs) \<and> nums_canon (JObj fs)"
proof -
  from assms obtain fs where p: "JSON_parse bytes = Some (JObj fs)" and n: "nums_canon (JObj fs)"
    by (auto simp: canonical_def split: option.splits json.splits)
  from JSON_parse_ok [OF p] p n show ?thesis by blast
qed

lemma canonical_state_TransferAsset:
  assumes "canonical_state st"
  shows "canonical_state (snd (TransferAsset st k newOwner))"
proof (cases "ReadAsset st k")
  case (Inl e)
  then show ?thesis using assms by (simp add: TransferAsset_def)
next
  case (Inr bytes)
  then have "getState st k = Some bytes"
    by (auto simp: ReadAsset_def split: option.splits if_splits)
  then have "canonical bytes" using assms by (intro canonical_stored)
  then obtain fs where p: "JSON_parse bytes = Some (JObj fs)" and ok: "json_ok (JObj fs)"
    and nc: "nums_canon (JObj fs)"
    using canonical_parsed by blast
  have "json_ok (JObj (obj_set ''Owner'' (JStr newOwner) fs))"
    using ok by (intro json_ok_obj_set) simp_all
  moreover have "nums_canon (JObj (obj_set ''Owner'' (JStr newOwner) fs))"
    using nc by (intro nums_canon_obj_set) simp_all
  ultimately have "canonical (encode (JObj (obj_set ''Owner'' (JStr newOwner) fs)))"
    by (rule canonical_encode)
  then show ?thesis
    using assms by (simp add: TransferAsset_parsed [OF Inr p] canonical_state_putState)
qed

lemma json_ok_of_nums_canon_asset:
  "nums_canon (asset_literal k snr vbat latitude longitude gas_resistance temperature
             pressure humidity light gyroscope accelerometer owner) \<Longrightarrow>
   json_ok (asset_literal k snr vbat latitude longitude gas_resistance temperature
             pressure humidity light gyroscope accelerometer owner)"
  unfolding json_ok_asset_literal
  by (auto simp: asset_literal_def list_all_iff number_canon_ok)

lemma canonical_asset_literal:
  assumes "nums_canon (asset_literal k snr vbat latitude longitude gas_resistance temperature
             pressure humidity light gyroscope accelerometer owner)"
  shows "canonical (encode (asset_literal k snr vbat latitude longitude gas_resistance
             temperature pressure humidity light gyroscope accelerometer owner))"
proof -
  obtain fs where fs: "asset_literal k snr vbat latitude longitude gas_resistance temperature
             pressure humidity light gyroscope accelerometer owner = JObj fs"
    using asset_literal_obj by blast
  from json_ok_of_nums_canon_asset [OF assms] assms show ?thesis
    unfolding fs by (rule canonical_encode)
qed

lemma canonical_state_InitLedger:
  assumes "canonical_state st"
  shows "canonical_state (snd (InitLedger st))"
proof -
  let ?lit = "asset_literal ''basdni7s8acadad8a9d8'' ''0.5'' ''3.3'' ''45.464664'' ''12.2629''
        ''0.5'' ''31.7'' ''1000.5'' ''50.5'' ''0.5'' [''0.5'', ''0.5'', ''0.5'']
        [''0.5'', ''0.5'', ''0.5''] ''Chidera's IoT device 1''"
  have nc: "nums_canon ?lit"
    by (simp add: asset_literal_def number_canon_examples)
  have "canonical (encode (JObj (obj_set ''docType'' (JStr ''asset'') fs)))"
    if "?lit = JObj fs" for fs
  proof (rule canonical_encode)
    have "json_ok (JObj fs)"
      using json_ok_of_nums_canon_asset [OF nc] by (simp only: that)
    then show "json_ok (JObj (obj_set ''docType'' (JStr ''asset'') fs))"
      by (intro json_ok_obj_set) simp_all
    have "nums_canon (JObj fs)" using nc by (simp only: that)
    then show "nums_canon (JObj (obj_set ''docType'' (JStr ''asset'') fs))"
      by (intro nums_canon_obj_set) simp_all
  qed
  then show ?thesis
    using assms
    by (simp add: InitLedger_def assets_def asset_literal_def canonical_state_putState)
qed

lemma canonical_metric_literal:
  "number_canon methanelevel \<Longrightarrow> canonical (encode (metric_literal timestamp methanelevel))"
  unfolding metric_literal_def by (rule canonical_encode) (simp_all add: number_canon_ok)

lemma canonical_state_InitLedger_m:
  assumes "canonical_state st"
  shows "canonical_state (snd (InitLedger_m st))"
proof -
  have "canonical (encode (JObj (obj_set ''docType'' (JStr ''asset'')
          [(''Timestamp'', JStr ''00:00:00''), (''Methanelevel'', JNum ''0'')])))"
    by (rule canonical_encode) (simp_all add: number_ok_examples number_canon_examples)
  then show ?thesis
    using assms
    by (simp add: InitLedger_m_def assets_m_def metric_literal_def canonical_state_putState)
qed

lemma canonical_rejects:
  "\<not> canonical (JSON_stringify (JObj [(''Timestamp'', JStr ''00:00:00''),
                                       (''Methanelevel'', JNum ''0'')]))"
  "\<not> canonical (JSON_stringify (JObj [(''n'', JNum ''1.0'')]))"
  "\<not> canonical (JSON_stringify (JObj [(''b'', JObj [(''z'', JNull), (''a'', JNull)])]))"
  "\<not> canonical ''{ }''"
proof -
  have p: "json_ok v \<Longrightarrow> JSON_parse (JSON_stringify v) = Some v" for v
    by (rule JSON_parse_stringify)
  have n0: "number_ok ''0''" by (rule number_ok_examples)
  have n1: "number_ok ''1.0''"
    by (simp add: number_ok_def int_ok_def frac_ok_def exp_ok_def is_numchar_def is_digit_def
          less_eq_char_def)
  have c1: "\<not> number_canon ''1.0''"
    by (simp add: number_canon_def unsigned_def frac_part_def is_digit_def less_eq_char_def)
  show "\<not> canonical (JSON_stringify (JObj [(''Timestamp'', JStr ''00:00:00''),
                                       (''Methanelevel'', JNum ''0'')]))"
    unfolding canonical_def by (subst p) (simp_all add: n0 less_eq_char_def)
  show "\<not> canonical (JSON_stringify (JObj [(''n'', JNum ''1.0'')]))"
    unfolding canonical_def by (subst p) (simp_all add: n1 c1)
  show "\<not> canonical (JSON_stringify (JObj [(''b'', JObj [(''z'', JNull), (''a'', JNull)])]))"
    unfolding canonical_def by (subst p) (simp_all add: less_eq_char_def)
  have "JSON_parse ''{ }'' = Some (JObj [])"
    by (simp add: JSON_parse_def lex_normal_def is_ws_def emit_def)
  then show "\<not> canonical ''{ }''"
    by (simp add: canonical_def compact_def is_ws_def)
qed

section \<open>The claims\<close>

text \<open>
  C1. Two field-value mappings that hold the same key/value pairs, built in different
  insertion orders, are encoded for a write to the same bytes. A mapping is a property
  list without repeated names; "the same pairs" is equality of the sets of pairs. The
  expression \<open>encode\<close> is the one \<^verbatim>\<open>CreateAsset\<close>, \<^verbatim>\<open>UpdateAsset\<close>,
  \<^verbatim>\<open>TransferAsset\<close> and \<^verbatim>\<open>InitLedger\<close> pass to \<^verbatim>\<open>putState\<close>.
\<close>

theorem encode_insertion_order:
  assumes "distinct (map fst xs)" "distinct (map fst ys)" "set xs = set ys"
  shows "encode (JObj xs) = encode (JObj ys)"
proof -
  let ?g = "\<lambda>kv. (fst kv, sortKeysRecursive (snd kv))"
  have fst_g: "map fst (map ?g zs) = map fst zs" for zs :: "(string \<times> json) list"
    by (simp add: comp_def)
  have "sort_key fst (map ?g xs) = sort_key fst (map ?g ys)"
    using assms by (intro sort_key_fst_unique) (simp_all only: fst_g set_map)
  then show ?thesis by (simp add: encode_def)
qed

theorem encode_insertion_order_witness:
  "distinct (map fst [(''SNR'', JNum ''0.5''), (''Owner'', JStr ''X'')]) \<and>
   distinct (map fst [(''Owner'', JStr ''X''), (''SNR'', JNum ''0.5'')]) \<and>
   set [(''SNR'', JNum ''0.5''), (''Owner'', JStr ''X'')] =
     set [(''Owner'', JStr ''X''), (''SNR'', JNum ''0.5'')] \<and>
   encode (JObj [(''SNR'', JNum ''0.5''), (''Owner'', JStr ''X'')]) =
     encode (JObj [(''Owner'', JStr ''X''), (''SNR'', JNum ''0.5'')])"
proof -
  have d1: "distinct (map fst [(''SNR'', JNum ''0.5''), (''Owner'', JStr ''X'')])" by simp
  have d2: "distinct (map fst [(''Owner'', JStr ''X''), (''SNR'', JNum ''0.5'')])" by simp
  have s: "set [(''SNR'', JNum ''0.5''), (''Owner'', JStr ''X'')] =
           set [(''Owner'', JStr ''X''), (''SNR'', JNum ''0.5'')]" by auto
  from encode_insertion_order [OF d1 d2 s] d1 d2 s show ?thesis by blast
qed

text \<open>
  C2. The specification has every write (\<^verbatim>\<open>InitLedger\<close>, \<^verbatim>\<open>CreateAsset\<close>,
  \<^verbatim>\<open>UpdateAsset\<close>, \<^verbatim>\<open>TransferAsset\<close>) store a record whose property \<^verbatim>\<open>docType\<close>
  is \<^verbatim>\<open>'asset'\<close>. The source sets \<^verbatim>\<open>asset.docType\<close> in \<^verbatim>\<open>InitLedger\<close> only (line 42); the object
  literals of \<^verbatim>\<open>CreateAsset\<close> and \<^verbatim>\<open>UpdateAsset\<close> have no such property. Evaluated
  on the empty world state: the record \<^verbatim>\<open>CreateAsset\<close> stores under \<open>dev-1\<close> and the
  record a following \<^verbatim>\<open>UpdateAsset\<close> stores there have no \<^verbatim>\<open>docType\<close>, while the
  record \<^verbatim>\<open>InitLedger\<close> stores has \<^verbatim>\<open>docType\<close> \<^verbatim>\<open>'asset'\<close>.
\<close>

theorem create_and_update_write_no_docType:
  "decoded (snd (CreateAsset [] ''dev-1'' ''0.5'' ''3.3'' ''45.464664'' ''12.2629'' ''0.5'' ''31.7''
      ''1000.5'' ''50.5'' ''0.5'' [''0.5'', ''3.3'', ''0''] [''5'', ''0'', ''0.5''] ''X'')) ''dev-1'' =
     Some (JObj (sorted_asset ''dev-1'' ''0.5'' ''3.3'' ''45.464664'' ''12.2629'' ''0.5'' ''31.7''
      ''1000.5'' ''50.5'' ''0.5'' [''0.5'', ''3.3'', ''0''] [''5'', ''0'', ''0.5''] ''X'')) \<and>
   decoded (snd (UpdateAsset
      (snd (CreateAsset [] ''dev-1'' ''0.5'' ''3.3'' ''45.464664'' ''12.2629'' ''0.5'' ''31.7''
         ''1000.5'' ''50.5'' ''0.5'' [''0.5'', ''3.3'', ''0''] [''5'', ''0'', ''0.5''] ''X''))
      ''dev-1'' ''0.5'' ''3.3'' ''45.464664'' ''12.2629'' ''0.5'' ''31.7''
      ''1000.5'' ''50.5'' ''0.5'' [''0.5'', ''3.3'', ''0''] [''5'', ''0'', ''0.5''] ''Y'')) ''dev-1'' =
     Some (JObj (sorted_asset ''dev-1'' ''0.5'' ''3.3'' ''45.464664'' ''12.2629'' ''0.5'' ''31.7''
      ''1000.5'' ''50.5'' ''0.5'' [''0.5'', ''3.3'', ''0''] [''5'', ''0'', ''0.5''] ''Y'')) \<and>
   field (JObj (sorted_asset ''dev-1'' ''0.5'' ''3.3'' ''45.464664'' ''12.2629'' ''0.5'' ''31.7''
      ''1000.5'' ''50.5'' ''0.5'' [''0.5'', ''3.3'', ''0''] [''5'', ''0'', ''0.5''] ''X''))
      ''docType'' = None \<and>
   field (JObj (sorted_asset ''dev-1'' ''0.5'' ''3.3'' ''45.464664'' ''12.2629'' ''0.5'' ''31.7''
      ''1000.5'' ''50.5'' ''0.5'' [''0.5'', ''3.3'', ''0''] [''5'', ''0'', ''0.5''] ''Y''))
      ''docType'' = None \<and>
   (case decoded (snd (InitLedger [])) ''basdni7s8acadad8a9d8'' of
      None \<Rightarrow> None | Some r \<Rightarrow> field r ''docType'') = Some (JStr ''asset'')"
proof -
  note a = absent_in_empty [of "''dev-1''"]
  note c = decoded_after_create [OF a example_args_ok [of "''dev-1''" "''X''"]]
  note e = AssetExists_after_create [OF a, of "''0.5''" "''3.3''" "''45.464664''" "''12.2629''"
      "''0.5''" "''31.7''" "''1000.5''" "''50.5''" "''0.5''" "[''0.5'', ''3.3'', ''0'']"
      "[''5'', ''0'', ''0.5'']" "''X''"]
  note u = decoded_after_update [OF e example_args_ok [of "''dev-1''" "''Y''"]]
  show ?thesis
    by (simp only: c u docType_sorted_asset decoded_InitLedger_docType simp_thms)
qed

text \<open>
  C3. The specification has \<^verbatim>\<open>Read(k)\<close> after \<^verbatim>\<open>Create(k, f)\<close> on an absent key
  succeed with a text that decodes to \<open>f\<close> plus the \<^verbatim>\<open>docType\<close> tag. Evaluated on the empty world state:
  \<^verbatim>\<open>ReadAsset\<close> succeeds and returns the encoding of the record built from the
  arguments; the text decodes to exactly that record (the identifier, the eleven
  telemetry fields and the owner), and the record has no \<^verbatim>\<open>docType\<close>.
\<close>

theorem create_then_read_has_no_docType:
  "ReadAsset (snd (CreateAsset [] ''dev-1'' ''0.5'' ''3.3'' ''45.464664'' ''12.2629'' ''0.5''
      ''31.7'' ''1000.5'' ''50.5'' ''0.5'' [''0.5'', ''3.3'', ''0''] [''5'', ''0'', ''0.5''] ''X''))
      ''dev-1'' =
     Inr (encode (asset_literal ''dev-1'' ''0.5'' ''3.3'' ''45.464664'' ''12.2629'' ''0.5''
      ''31.7'' ''1000.5'' ''50.5'' ''0.5'' [''0.5'', ''3.3'', ''0''] [''5'', ''0'', ''0.5''] ''X'')) \<and>
   JSON_parse (encode (asset_literal ''dev-1'' ''0.5'' ''3.3'' ''45.464664'' ''12.2629'' ''0.5''
      ''31.7'' ''1000.5'' ''50.5'' ''0.5'' [''0.5'', ''3.3'', ''0''] [''5'', ''0'', ''0.5''] ''X'')) =
     Some (JObj (sorted_asset ''dev-1'' ''0.5'' ''3.3'' ''45.464664'' ''12.2629'' ''0.5''
      ''31.7'' ''1000.5'' ''50.5'' ''0.5'' [''0.5'', ''3.3'', ''0''] [''5'', ''0'', ''0.5''] ''X'')) \<and>
   field (JObj (sorted_asset ''dev-1'' ''0.5'' ''3.3'' ''45.464664'' ''12.2629'' ''0.5''
      ''31.7'' ''1000.5'' ''50.5'' ''0.5'' [''0.5'', ''3.3'', ''0''] [''5'', ''0'', ''0.5''] ''X''))
      ''docType'' = None"
proof -
  note a = absent_in_empty [of "''dev-1''"]
  show ?thesis
    by (simp only: ReadAsset_after_create [OF a]
          JSON_parse_encode_asset_literal [OF example_args_ok [of "''dev-1''" "''X''"]]
          docType_sorted_asset simp_thms)
qed

text \<open>
  C4. After a successful \<^verbatim>\<open>CreateAsset\<close> at key \<open>k\<close>, a second \<^verbatim>\<open>CreateAsset\<close> at
  \<open>k\<close>, with any field values, fails with "already exists" and leaves the world state
  exactly as the first call left it.
\<close>

theorem no_double_create:
  assumes "fst (CreateAsset st k snr1 vbat1 latitude1 longitude1 gas_resistance1 temperature1
             pressure1 humidity1 light1 gyroscope1 accelerometer1 owner1) = Inr ()"
  shows "CreateAsset
           (snd (CreateAsset st k snr1 vbat1 latitude1 longitude1 gas_resistance1 temperature1
                   pressure1 humidity1 light1 gyroscope1 accelerometer1 owner1))
           k snr2 vbat2 latitude2 longitude2 gas_resistance2 temperature2 pressure2 humidity2
           light2 gyroscope2 accelerometer2 owner2 =
         (Inl (AlreadyExists k),
          snd (CreateAsset st k snr1 vbat1 latitude1 longitude1 gas_resistance1 temperature1
                 pressure1 humidity1 light1 gyroscope1 accelerometer1 owner1))"
proof -
  from assms have "\<not> AssetExists st k" by (simp add: CreateAsset_ok_iff)
  then have "AssetExists
           (snd (CreateAsset st k snr1 vbat1 latitude1 longitude1 gas_resistance1 temperature1
                   pressure1 humidity1 light1 gyroscope1 accelerometer1 owner1)) k"
    by (rule AssetExists_after_create)
  then show ?thesis by (simp add: CreateAsset_def)
qed

theorem no_double_create_witness:
  "fst (CreateAsset [] ''dev-1'' ''0.5'' ''3.3'' ''45.4'' ''12.2'' ''0.5'' ''31.7'' ''1000.5''
          ''50.5'' ''0.5'' [''1'', ''2'', ''3''] [''4'', ''5'', ''6''] ''X'') = Inr () \<and>
   CreateAsset
     (snd (CreateAsset [] ''dev-1'' ''0.5'' ''3.3'' ''45.4'' ''12.2'' ''0.5'' ''31.7'' ''1000.5''
             ''50.5'' ''0.5'' [''1'', ''2'', ''3''] [''4'', ''5'', ''6''] ''X''))
     ''dev-1'' ''9'' ''9'' ''9'' ''9'' ''9'' ''9'' ''9'' ''9'' ''9'' [] [] ''Y'' =
   (Inl (AlreadyExists ''dev-1''),
    snd (CreateAsset [] ''dev-1'' ''0.5'' ''3.3'' ''45.4'' ''12.2'' ''0.5'' ''31.7'' ''1000.5''
           ''50.5'' ''0.5'' [''1'', ''2'', ''3''] [''4'', ''5'', ''6''] ''X''))"
proof -
  have h: "fst (CreateAsset [] ''dev-1'' ''0.5'' ''3.3'' ''45.4'' ''12.2'' ''0.5'' ''31.7''
             ''1000.5'' ''50.5'' ''0.5'' [''1'', ''2'', ''3''] [''4'', ''5'', ''6''] ''X'') = Inr ()"
    by (simp add: CreateAsset_def AssetExists_def getState_def)
  from h no_double_create [OF h] show ?thesis by (rule conjI)
qed

text \<open>
  C5. For a sensor record created at an absent key \<open>k\<close> with owner \<open>a\<close>,
  \<^verbatim>\<open>TransferAsset(k, b)\<close> returns \<open>a\<close>; before the transfer \<^verbatim>\<open>ReadAsset(k)\<close> decodes
  to the record with owner \<open>a\<close>, afterwards to the record with owner \<open>b\<close>, and the two
  records agree on every property but \<^verbatim>\<open>Owner\<close>. The numbers of the record are
  well-formed number tokens.
\<close>

theorem transfer_swaps_owner:
  assumes "\<not> AssetExists st k"
    and "json_ok (asset_literal k snr vbat latitude longitude gas_resistance temperature
           pressure humidity light gyroscope accelerometer a)"
  shows "fst (TransferAsset
                (snd (CreateAsset st k snr vbat latitude longitude gas_resistance temperature
                        pressure humidity light gyroscope accelerometer a)) k b) =
           Inr (Some (JStr a)) \<and>
         decoded (snd (CreateAsset st k snr vbat latitude longitude gas_resistance temperature
                         pressure humidity light gyroscope accelerometer a)) k =
           Some (JObj (sorted_asset k snr vbat latitude longitude gas_resistance temperature
                         pressure humidity light gyroscope accelerometer a)) \<and>
         decoded (snd (TransferAsset
                (snd (CreateAsset st k snr vbat latitude longitude gas_resistance temperature
                        pressure humidity light gyroscope accelerometer a)) k b)) k =
           Some (JObj (sorted_asset k snr vbat latitude longitude gas_resistance temperature
                         pressure humidity light gyroscope accelerometer b)) \<and>
         field (JObj (sorted_asset k snr vbat latitude longitude gas_resistance temperature
                         pressure humidity light gyroscope accelerometer b)) =
           (field (JObj (sorted_asset k snr vbat latitude longitude gas_resistance temperature
                         pressure humidity light gyroscope accelerometer a)))
             (''Owner'' \<mapsto> JStr b)"
proof -
  let ?lit = "asset_literal k snr vbat latitude longitude gas_resistance temperature
                pressure humidity light gyroscope accelerometer a"
  let ?fa = "sorted_asset k snr vbat latitude longitude gas_resistance temperature
                pressure humidity light gyroscope accelerometer a"
  let ?fb = "sorted_asset k snr vbat latitude longitude gas_resistance temperature
                pressure humidity light gyroscope accelerometer b"
  let ?st1 = "snd (CreateAsset st k snr vbat latitude longitude gas_resistance temperature
                pressure humidity light gyroscope accelerometer a)"
  have st1: "?st1 = putState k (encode (JObj ?fa)) st"
    by (simp only: CreateAsset_absent [OF assms(1)] encode_asset_literal snd_conv)
  have rd: "ReadAsset ?st1 k = Inr (encode (JObj ?fa))"
    unfolding st1 by (rule ReadAsset_putState [OF encode_nonempty])
  have ok_a: "json_ok (JObj ?fa)" using assms(2) by (simp only: json_ok_sorted_asset)
  have ps: "JSON_parse (encode (JObj ?fa)) = Some (JObj ?fa)"
    using JSON_parse_encode [OF ok_a] by (simp only: sortKeys_sorted_asset)
  have tr: "TransferAsset ?st1 k b = (Inr (Some (JStr a)), putState k (encode (JObj ?fb)) ?st1)"
    by (simp only: TransferAsset_parsed [OF rd ps] owner_sorted_asset obj_set_owner_sorted_asset)
  have ok_b: "json_ok (asset_literal k snr vbat latitude longitude gas_resistance temperature
                pressure humidity light gyroscope accelerometer b)"
    using assms(2) by (simp only: json_ok_asset_literal)
  have d1: "decoded ?st1 k = Some (JObj ?fa)"
    using decoded_after_create [OF assms] .
  have d2: "decoded (snd (TransferAsset ?st1 k b)) k = Some (JObj ?fb)"
    unfolding tr snd_conv by (rule decoded_put_sorted_asset [OF ok_b])
  have r: "fst (TransferAsset ?st1 k b) = Inr (Some (JStr a))"
    unfolding tr by simp
  from r d1 d2 field_sorted_asset_owner [of k snr vbat latitude longitude gas_resistance
      temperature pressure humidity light gyroscope accelerometer b a]
  show ?thesis by blast
qed

theorem transfer_swaps_owner_witness:
  "\<not> AssetExists [] ''dev-1'' \<and>
   json_ok (asset_literal ''dev-1'' ''0.5'' ''3.3'' ''45.464664'' ''12.2629'' ''0.5'' ''31.7''
      ''1000.5'' ''50.5'' ''0.5'' [''0.5'', ''3.3'', ''0''] [''5'', ''0'', ''0.5''] ''A'') \<and>
   fst (TransferAsset
          (snd (CreateAsset [] ''dev-1'' ''0.5'' ''3.3'' ''45.464664'' ''12.2629'' ''0.5'' ''31.7''
                  ''1000.5'' ''50.5'' ''0.5'' [''0.5'', ''3.3'', ''0''] [''5'', ''0'', ''0.5''] ''A''))
          ''dev-1'' ''B'') = Inr (Some (JStr ''A'')) \<and>
   decoded (snd (TransferAsset
          (snd (CreateAsset [] ''dev-1'' ''0.5'' ''3.3'' ''45.464664'' ''12.2629'' ''0.5'' ''31.7''
                  ''1000.5'' ''50.5'' ''0.5'' [''0.5'', ''3.3'', ''0''] [''5'', ''0'', ''0.5''] ''A''))
          ''dev-1'' ''B'')) ''dev-1'' =
     Some (JObj (sorted_asset ''dev-1'' ''0.5'' ''3.3'' ''45.464664'' ''12.2629'' ''0.5'' ''31.7''
                  ''1000.5'' ''50.5'' ''0.5'' [''0.5'', ''3.3'', ''0''] [''5'', ''0'', ''0.5''] ''B''))"
proof -
  note h1 = absent_in_empty [of "''dev-1''"]
  note h2 = example_args_ok [of "''dev-1''" "''A''"]
  from transfer_swaps_owner [OF h1 h2, of "''B''"] h1 h2 show ?thesis by blast
qed

text \<open>
  C6. \<^verbatim>\<open>UpdateAsset\<close> on an absent key fails with "does not exist" and writes nothing.
  After \<^verbatim>\<open>CreateAsset(k, f1)\<close> and \<^verbatim>\<open>UpdateAsset(k, f2)\<close>, \<^verbatim>\<open>ReadAsset(k)\<close> decodes
  exactly to the record built from \<open>f2\<close>: nothing of \<open>f1\<close> remains.
\<close>

theorem update_replaces_fully:
  assumes "\<not> AssetExists st k"
    and "json_ok (asset_literal k snr2 vbat2 latitude2 longitude2 gas_resistance2 temperature2
           pressure2 humidity2 light2 gyroscope2 accelerometer2 owner2)"
  shows "UpdateAsset st k snr2 vbat2 latitude2 longitude2 gas_resistance2 temperature2
           pressure2 humidity2 light2 gyroscope2 accelerometer2 owner2 =
           (Inl (NotFound k), st) \<and>
         fst (UpdateAsset
                (snd (CreateAsset st k snr1 vbat1 latitude1 longitude1 gas_resistance1
                        temperature1 pressure1 humidity1 light1 gyroscope1 accelerometer1 owner1))
                k snr2 vbat2 latitude2 longitude2 gas_resistance2 temperature2
                pressure2 humidity2 light2 gyroscope2 accelerometer2 owner2) = Inr () \<and>
         decoded (snd (UpdateAsset
                (snd (CreateAsset st k snr1 vbat1 latitude1 longitude1 gas_resistance1
                        temperature1 pressure1 humidity1 light1 gyroscope1 accelerometer1 owner1))
                k snr2 vbat2 latitude2 longitude2 gas_resistance2 temperature2
                pressure2 humidity2 light2 gyroscope2 accelerometer2 owner2)) k =
           Some (JObj (sorted_asset k snr2 vbat2 latitude2 longitude2 gas_resistance2
                         temperature2 pressure2 humidity2 light2 gyroscope2 accelerometer2 owner2))"
proof -
  let ?st1 = "snd (CreateAsset st k snr1 vbat1 latitude1 longitude1 gas_resistance1
                     temperature1 pressure1 humidity1 light1 gyroscope1 accelerometer1 owner1)"
  let ?f2 = "sorted_asset k snr2 vbat2 latitude2 longitude2 gas_resistance2
               temperature2 pressure2 humidity2 light2 gyroscope2 accelerometer2 owner2"
  have nf: "UpdateAsset st k snr2 vbat2 latitude2 longitude2 gas_resistance2 temperature2
           pressure2 humidity2 light2 gyroscope2 accelerometer2 owner2 = (Inl (NotFound k), st)"
    using assms(1) by (simp add: UpdateAsset_def)
  have ex: "AssetExists ?st1 k" using assms(1) by (rule AssetExists_after_create)
  have up: "UpdateAsset ?st1 k snr2 vbat2 latitude2 longitude2 gas_resistance2 temperature2
           pressure2 humidity2 light2 gyroscope2 accelerometer2 owner2 =
           (Inr (), putState k (encode (JObj ?f2)) ?st1)"
    by (simp only: UpdateAsset_present [OF ex] encode_asset_literal)
  have d: "decoded (putState k (encode (JObj ?f2)) ?st1) k = Some (JObj ?f2)"
    by (rule decoded_put_sorted_asset [OF assms(2)])
  from nf d show ?thesis unfolding up by simp
qed

theorem update_replaces_fully_witness:
  "\<not> AssetExists [] ''dev-1'' \<and>
   json_ok (asset_literal ''dev-1'' ''0.5'' ''3.3'' ''45.464664'' ''12.2629'' ''0.5'' ''31.7''
      ''1000.5'' ''50.5'' ''0.5'' [''0.5'', ''3.3'', ''0''] [''5'', ''0'', ''0.5''] ''B'') \<and>
   UpdateAsset [] ''dev-1'' ''0.5'' ''3.3'' ''45.464664'' ''12.2629'' ''0.5'' ''31.7''
      ''1000.5'' ''50.5'' ''0.5'' [''0.5'', ''3.3'', ''0''] [''5'', ''0'', ''0.5''] ''B'' =
     (Inl (NotFound ''dev-1''), []) \<and>
   decoded (snd (UpdateAsset
          (snd (CreateAsset [] ''dev-1'' ''1'' ''2'' ''3'' ''4'' ''5'' ''6'' ''7'' ''8'' ''9''
                  [''1''] [] ''A''))
          ''dev-1'' ''0.5'' ''3.3'' ''45.464664'' ''12.2629'' ''0.5'' ''31.7''
          ''1000.5'' ''50.5'' ''0.5'' [''0.5'', ''3.3'', ''0''] [''5'', ''0'', ''0.5''] ''B'')) ''dev-1'' =
     Some (JObj (sorted_asset ''dev-1'' ''0.5'' ''3.3'' ''45.464664'' ''12.2629'' ''0.5'' ''31.7''
                  ''1000.5'' ''50.5'' ''0.5'' [''0.5'', ''3.3'', ''0''] [''5'', ''0'', ''0.5''] ''B''))"
proof -
  note h1 = absent_in_empty [of "''dev-1''"]
  note h2 = example_args_ok [of "''dev-1''" "''B''"]
  from update_replaces_fully [OF h1 h2, of "''1''" "''2''" "''3''" "''4''" "''5''" "''6''" "''7''"
      "''8''" "''9''" "[''1'']" "[]" "''A''"] h1 h2
  show ?thesis by blast
qed

text \<open>
  C7. The specification has \<^verbatim>\<open>Delete(k)\<close> remove a present key and fail with "does not
  exist" on an absent one, in both schema variants. For sensor assets this is \<open>DeleteAsset_sensor\<close>
  above. For methane readings line 321 of the source reads \<^verbatim>\<open>id\<close>, which is not
  declared. Evaluated after \<^verbatim>\<open>CreateAsset('00:00:01', 5)\<close> on the empty world state:
  the reading exists, \<^verbatim>\<open>DeleteAsset('00:00:01')\<close> fails with a reference error and
  leaves the world state as it was, and \<^verbatim>\<open>ReadAsset\<close> still returns the reading.
\<close>

theorem metric_delete_never_deletes:
  "AssetExists_m (snd (CreateAsset_m [] ''00:00:01'' ''5'')) ''00:00:01'' \<and>
   DeleteAsset_m (snd (CreateAsset_m [] ''00:00:01'' ''5'')) ''00:00:01'' =
     (Inl (ReferenceError ''id''), snd (CreateAsset_m [] ''00:00:01'' ''5'')) \<and>
   ReadAsset_m (snd (DeleteAsset_m (snd (CreateAsset_m [] ''00:00:01'' ''5'')) ''00:00:01''))
     ''00:00:01'' = Inr (encode (metric_literal ''00:00:01'' ''5''))"
  using encode_metric_nonempty [of "''00:00:01''" "''5''"]
  by (simp add: CreateAsset_m_empty DeleteAsset_m_def AssetExists_m_def ReadAsset_m_def
        getState_def)

text \<open>
  C8. In every world state \<^verbatim>\<open>GetAllAssets\<close> returns a text (no branch of it fails):
  the JSON array with one entry per stored key, in the order of the scan, where an entry
  is the parse of the stored text, or the stored text itself as a string when it does not
  parse. The returned text parses back to exactly that array.
\<close>

theorem get_all_assets_lists_every_entry:
  "GetAllAssets st = Inr (JSON_stringify (JArr (map (\<lambda>e. entry (snd e)) st))) \<and>
   JSON_parse (JSON_stringify (JArr (map (\<lambda>e. entry (snd e)) st))) =
     Some (JArr (map (\<lambda>e. entry (snd e)) st))"
proof
  show "GetAllAssets st = Inr (JSON_stringify (JArr (map (\<lambda>e. entry (snd e)) st)))"
    by (simp add: GetAllAssets_def GetAllAssets_loop_map getStateByRange_all)
  have "json_ok (JArr (map (\<lambda>e. entry (snd e)) st))"
    by (simp add: list_all_iff json_ok_entry)
  then show "JSON_parse (JSON_stringify (JArr (map (\<lambda>e. entry (snd e)) st))) =
     Some (JArr (map (\<lambda>e. entry (snd e)) st))"
    by (rule JSON_parse_stringify)
qed

text \<open>
  C9. The empty world state holds canonical texts only, and every transaction of both
  contracts keeps it so. A text is canonical when it parses to an object with keys sorted
  recursively and numbers in the form ECMAScript prints, has no whitespace outside
  strings, and is what \<^verbatim>\<open>JSON.stringify\<close> prints for that object; none of this is
  stated through the encoder (\<open>canonical_rejects\<close> above: a text with unsorted keys, with
  the number \<open>1.0\<close>, or with a space is not canonical). The numbers passed to
  \<^verbatim>\<open>CreateAsset\<close> and \<^verbatim>\<open>UpdateAsset\<close> are in the form ECMAScript prints.
\<close>

theorem writes_are_canonical:
  assumes "canonical_state st"
    and "nums_canon (asset_literal k snr vbat latitude longitude gas_resistance temperature
           pressure humidity light gyroscope accelerometer owner)"
    and "number_canon methanelevel"
  shows "canonical_state [] \<and>
         canonical_state (snd (InitLedger st)) \<and>
         canonical_state (snd (CreateAsset st k snr vbat latitude longitude gas_resistance
            temperature pressure humidity light gyroscope accelerometer owner)) \<and>
         canonical_state (snd (UpdateAsset st k snr vbat latitude longitude gas_resistance
            temperature pressure humidity light gyroscope accelerometer owner)) \<and>
         canonical_state (snd (TransferAsset st k newOwner)) \<and>
         canonical_state (snd (DeleteAsset st k)) \<and>
         canonical_state (snd (InitLedger_m st)) \<and>
         canonical_state (snd (CreateAsset_m st timestamp methanelevel)) \<and>
         canonical_state (snd (UpdateAsset_m st timestamp methanelevel)) \<and>
         canonical_state (snd (DeleteAsset_m st timestamp))"
proof -
  note lit = canonical_asset_literal [OF assms(2)]
  note met = canonical_metric_literal [OF assms(3), of timestamp]
  have e: "canonical_state []" by (simp add: canonical_state_def)
  have c: "canonical_state (snd (CreateAsset st k snr vbat latitude longitude gas_resistance
            temperature pressure humidity light gyroscope accelerometer owner))"
    using assms(1) lit by (simp add: CreateAsset_def canonical_state_putState)
  have u: "canonical_state (snd (UpdateAsset st k snr vbat latitude longitude gas_resistance
            temperature pressure humidity light gyroscope accelerometer owner))"
    using assms(1) lit by (simp add: UpdateAsset_def canonical_state_putState)
  have d: "canonical_state (snd (DeleteAsset st k))"
    using assms(1) by (simp add: DeleteAsset_def canonical_state_deleteState)
  have cm: "canonical_state (snd (CreateAsset_m st timestamp methanelevel))"
    using assms(1) met by (simp add: CreateAsset_m_def canonical_state_putState)
  have um: "canonical_state (snd (UpdateAsset_m st timestamp methanelevel))"
    using assms(1) met by (simp add: UpdateAsset_m_def canonical_state_putState)
  have dm: "canonical_state (snd (DeleteAsset_m st timestamp))"
    using assms(1) by (simp add: DeleteAsset_m_def)
  from e canonical_state_InitLedger [OF assms(1)] c u
    canonical_state_TransferAsset [OF assms(1), of k newOwner] d
    canonical_state_InitLedger_m [OF assms(1)] cm um dm
  show ?thesis by blast
qed

theorem writes_are_canonical_witness:
  "canonical_state [(''dev-1'', encode (JObj [(''Owner'', JStr ''A''), (''ID'', JStr ''dev-1'')]))] \<and>
   nums_canon (asset_literal ''dev-1'' ''0.5'' ''3.3'' ''45.464664'' ''12.2629'' ''0.5'' ''31.7''
      ''1000.5'' ''50.5'' ''0.5'' [''0.5'', ''3.3'', ''0''] [''5'', ''0'', ''0.5''] ''B'') \<and>
   number_canon ''5'' \<and>
   canonical_state (snd (TransferAsset
      [(''dev-1'', encode (JObj [(''Owner'', JStr ''A''), (''ID'', JStr ''dev-1'')]))]
      ''dev-1'' ''B'')) \<and>
   canonical_state (snd (UpdateAsset
      [(''dev-1'', encode (JObj [(''Owner'', JStr ''A''), (''ID'', JStr ''dev-1'')]))]
      ''dev-1'' ''0.5'' ''3.3'' ''45.464664'' ''12.2629'' ''0.5'' ''31.7''
      ''1000.5'' ''50.5'' ''0.5'' [''0.5'', ''3.3'', ''0''] [''5'', ''0'', ''0.5''] ''B'')) \<and>
   canonical_state (snd (CreateAsset_m
      [(''dev-1'', encode (JObj [(''Owner'', JStr ''A''), (''ID'', JStr ''dev-1'')]))]
      ''00:00:01'' ''5''))"
proof -
  have "canonical (encode (JObj [(''Owner'', JStr ''A''), (''ID'', JStr ''dev-1'')]))"
    by (rule canonical_encode) simp_all
  then have h1: "canonical_state
      [(''dev-1'', encode (JObj [(''Owner'', JStr ''A''), (''ID'', JStr ''dev-1'')]))]"
    by (simp add: canonical_state_def)
  have h2: "nums_canon (asset_literal ''dev-1'' ''0.5'' ''3.3'' ''45.464664'' ''12.2629'' ''0.5''
      ''31.7'' ''1000.5'' ''50.5'' ''0.5'' [''0.5'', ''3.3'', ''0''] [''5'', ''0'', ''0.5''] ''B'')"
    by (simp add: asset_literal_def number_canon_examples)
  have h3: "number_canon ''5''" by (rule number_canon_examples)
  from writes_are_canonical [OF h1 h2 h3, of "''B''" "''00:00:01''"] h1 h2 h3
  show ?thesis by blast
qed

text \<open>
  C10. When the world state holds the non-empty bytes \<open>v\<close> at key \<open>k\<close>, \<^verbatim>\<open>ReadAsset(k)\<close>
  returns \<open>v\<close> itself, neither decoded nor reformatted; in particular it returns what the
  last \<^verbatim>\<open>putState\<close> at \<open>k\<close> wrote.
\<close>

theorem read_returns_stored_bytes:
  assumes "getState st k = Some v" "v \<noteq> []"
  shows "ReadAsset st k = Inr v \<and> ReadAsset (putState k v st') k = Inr v"
  using assms by (simp add: ReadAsset_def getState_putState_same)

theorem read_returns_stored_bytes_witness:
  "getState [(''dev-1'', ''{}'')] ''dev-1'' = Some ''{}'' \<and> ''{}'' \<noteq> [] \<and>
   ReadAsset [(''dev-1'', ''{}'')] ''dev-1'' = Inr ''{}'' \<and>
   ReadAsset (putState ''dev-1'' ''{}'' []) ''dev-1'' = Inr ''{}''"
proof -
  have h1: "getState [(''dev-1'', ''{}'')] ''dev-1'' = Some ''{}''" by (simp add: getState_def)
  have h2: "''{}'' \<noteq> []" by simp
  from read_returns_stored_bytes [OF h1 h2, of "[]"] h1 h2 show ?thesis by blast
qed

end
